theory Spec2Isabelle
  imports Main "HOL-Library.Sublist"
begin

section \<open>Strings\<close>

text \<open>
  A JavaScript string is a sequence of UTF-16 code units. The model covers the strings
  whose code units are all below 256: one \<^typ>\<open>char\<close> is one code unit, and
  \<^const>\<open>length\<close> is the \<^verbatim>\<open>.length\<close> of the source. On this range
  \<^verbatim>\<open>toLowerCase\<close> maps A-Z and the upper-case letters of Latin-1 (U+00C0 to U+00DE
  without the multiplication sign U+00D7) to the code unit 32 above, the white space of
  \<^verbatim>\<open>trim\<close> is U+0009 to U+000D, U+0020 and U+00A0. The line terminators that
  the regular-expression dot refuses are U+000A, U+000D, U+2028 and U+2029; only the first
  two lie on this range.
\<close>

definition codeUnit :: "char \<Rightarrow> nat" where
  "codeUnit c = of_char c"

definition isUpperCase :: "char \<Rightarrow> bool" where
  "isUpperCase c =
     ((65 \<le> codeUnit c \<and> codeUnit c \<le> 90) \<or>
      (192 \<le> codeUnit c \<and> codeUnit c \<le> 222 \<and> codeUnit c \<noteq> 215))"

definition lowerChar :: "char \<Rightarrow> char" where
  "lowerChar c =
     (if isUpperCase c
      then (case c of Char b0 b1 b2 b3 b4 b5 b6 b7 \<Rightarrow> Char b0 b1 b2 b3 b4 True b6 b7)
      else c)"

definition toLowerCase :: "string \<Rightarrow> string" where
  "toLowerCase s = map lowerChar s"

definition isWhiteSpace :: "char \<Rightarrow> bool" where
  "isWhiteSpace c =
     ((9 \<le> codeUnit c \<and> codeUnit c \<le> 13) \<or> codeUnit c = 32 \<or> codeUnit c = 160)"

definition isLineTerminator :: "char \<Rightarrow> bool" where
  "isLineTerminator c =
     (codeUnit c = 0x0A \<or> codeUnit c = 0x0D \<or> codeUnit c = 0x2028 \<or> codeUnit c = 0x2029)"

definition trimStart :: "string \<Rightarrow> string" where
  "trimStart s = dropWhile isWhiteSpace s"

definition trimEnd :: "string \<Rightarrow> string" where
  "trimEnd s = rev (dropWhile isWhiteSpace (rev s))"

definition trim :: "string \<Rightarrow> string" where
  "trim s = trimEnd (trimStart s)"

definition startsWith :: "string \<Rightarrow> string \<Rightarrow> bool" where
  "startsWith s p = (take (length p) s = p)"

section \<open>Regular expressions\<close>

text \<open>
  The regular expressions of the modelled functions all start with \<^verbatim>\<open>^\<close> and are sequences
  of single-character classes, each taken once, \<^verbatim>\<open>*\<close> or \<^verbatim>\<open>+\<close> times, some
  of them inside a capture group. \<open>rexec\<close> is the backtracking matcher of the language on
  this fragment: a quantified class first takes as many characters as it can and gives
  them back one at a time while the rest of the expression fails. Its result is the list
  of the captured groups, or \<open>None\<close> where the source gets \<^verbatim>\<open>null\<close>.
\<close>

datatype quant = One | Star | Plus

datatype item = Item "char \<Rightarrow> bool" quant bool

record regex =
  items :: "item list"
  anchoredEnd :: bool

fun consGroup :: "char \<Rightarrow> string list \<Rightarrow> string list" where
  "consGroup c [] = [[c]]"
| "consGroup c (g # gs) = (c # g) # gs"

definition openGroup :: "bool \<Rightarrow> string list \<Rightarrow> string list" where
  "openGroup cap gs = (if cap then [] # gs else gs)"

definition extendGroup :: "bool \<Rightarrow> char \<Rightarrow> string list \<Rightarrow> string list" where
  "extendGroup cap c gs = (if cap then consGroup c gs else gs)"

fun rexec :: "item list \<Rightarrow> bool \<Rightarrow> string \<Rightarrow> string list option" where
  "rexec [] e s = (if e \<and> s \<noteq> [] then None else Some [])"
| "rexec (Item P One cap # is) e [] = None"
| "rexec (Item P One cap # is) e (c # cs) =
     (if P c then map_option (extendGroup cap c \<circ> openGroup cap) (rexec is e cs) else None)"
| "rexec (Item P Plus cap # is) e [] = None"
| "rexec (Item P Plus cap # is) e (c # cs) =
     (if P c then map_option (extendGroup cap c) (rexec (Item P Star cap # is) e cs) else None)"
| "rexec (Item P Star cap # is) e [] = map_option (openGroup cap) (rexec is e [])"
| "rexec (Item P Star cap # is) e (c # cs) =
     (case (if P c then rexec (Item P Star cap # is) e cs else None) of
        Some gs \<Rightarrow> Some (extendGroup cap c gs)
      | None \<Rightarrow> map_option (openGroup cap) (rexec is e (c # cs)))"

definition exec :: "regex \<Rightarrow> string \<Rightarrow> string list option" where
  "exec r s = rexec (items r) (anchoredEnd r) s"

definition test :: "regex \<Rightarrow> string \<Rightarrow> bool" where
  "test r s = (exec r s \<noteq> None)"

definition lit :: "char \<Rightarrow> item" where
  "lit c = Item (\<lambda>x. x = c) One False"

definition dot :: "char \<Rightarrow> bool" where
  "dot c = (\<not> isLineTerminator c)"

section \<open>Target keys\<close>

record TargetKeyParts =
  accountId :: string
  target :: string

text \<open>\<^verbatim>\<open>`irc:${accountId}:${target.toLowerCase()}`\<close>, the account id defaulting to "default".\<close>

definition buildIrcTargetKey :: "string option \<Rightarrow> string \<Rightarrow> string" where
  "buildIrcTargetKey acct tgt =
     ''irc:'' @ (case acct of None \<Rightarrow> ''default'' | Some a \<Rightarrow> a) @ '':'' @ toLowerCase tgt"

text \<open>\<^verbatim>\<open>/^irc:([^:]+):(.+)$/\<close>\<close>

definition targetKeyRegex :: regex where
  "targetKeyRegex =
     \<lparr>items = [lit CHR ''i'', lit CHR ''r'', lit CHR ''c'', lit CHR '':'',
               Item (\<lambda>c. c \<noteq> CHR '':'') Plus True, lit CHR '':'', Item dot Plus True],
      anchoredEnd = True\<rparr>"

definition parseIrcTargetKey :: "string \<Rightarrow> TargetKeyParts option" where
  "parseIrcTargetKey key =
     (case exec targetKeyRegex key of
        Some [a, t] \<Rightarrow> Some \<lparr>accountId = a, target = t\<rparr>
      | _ \<Rightarrow> None)"

definition isAsciiLower :: "char \<Rightarrow> bool" where
  "isAsciiLower c = (97 \<le> codeUnit c \<and> codeUnit c \<le> 122)"

definition isAsciiUpper :: "char \<Rightarrow> bool" where
  "isAsciiUpper c = (65 \<le> codeUnit c \<and> codeUnit c \<le> 90)"

definition isAsciiDigit :: "char \<Rightarrow> bool" where
  "isAsciiDigit c = (48 \<le> codeUnit c \<and> codeUnit c \<le> 57)"

text \<open>The account ids of the round trip: \<^verbatim>\<open>[a-z0-9_-]+\<close>.\<close>

definition matchesAccountId :: "string \<Rightarrow> bool" where
  "matchesAccountId a =
     (a \<noteq> [] \<and>
      list_all (\<lambda>c. isAsciiLower c \<or> isAsciiDigit c \<or> c = CHR ''_'' \<or> c = CHR ''-'') a)"

section \<open>Normalising a messaging target\<close>

text \<open>\<^verbatim>\<open>/^irc:[^:]+:.+/\<close>: no flag and no anchor at the end.\<close>

definition prefixedKeyRegex :: regex where
  "prefixedKeyRegex =
     \<lparr>items = [lit CHR ''i'', lit CHR ''r'', lit CHR ''c'', lit CHR '':'',
               Item (\<lambda>c. c \<noteq> CHR '':'') Plus False, lit CHR '':'', Item dot Plus False],
      anchoredEnd = False\<rparr>"

text \<open>The two classes of the nick expression; U+005C is the backslash, U+0060 the backquote.\<close>

definition isNickStart :: "char \<Rightarrow> bool" where
  "isNickStart c =
     (isAsciiLower c \<or> isAsciiUpper c \<or>
      c \<in> set [CHR ''_'', CHR ''-'', CHR ''['', CHR '']'', CHR 0x5C, CHR ''^'', CHR ''{'',
                CHR ''}'', CHR ''|'', CHR 0x60])"

definition isNickChar :: "char \<Rightarrow> bool" where
  "isNickChar c = (isNickStart c \<or> isAsciiDigit c)"

definition nickRegex :: regex where
  "nickRegex = \<lparr>items = [Item isNickStart One False, Item isNickChar Star False],
                 anchoredEnd = True\<rparr>"

text \<open>
  What \<^verbatim>\<open>[^:]+:.+\<close> asks of the characters behind the prefix: a non-empty run
  without colon, a colon, and then a character that is no line terminator.
\<close>

definition hasKeyBody :: "string \<Rightarrow> bool" where
  "hasKeyBody rest =
     (takeWhile (\<lambda>c. c \<noteq> CHR '':'') rest \<noteq> [] \<and>
      (case dropWhile (\<lambda>c. c \<noteq> CHR '':'') rest of
         [] \<Rightarrow> False
       | colon # tgt \<Rightarrow> (case tgt of [] \<Rightarrow> False | x # xs \<Rightarrow> \<not> isLineTerminator x)))"

definition normalizeIrcMessagingTarget :: "string \<Rightarrow> string option" where
  "normalizeIrcMessagingTarget raw =
     (let trimmed = trim raw in
      if trimmed = [] then None
      else if test prefixedKeyRegex trimmed then Some (toLowerCase trimmed)
      else if startsWith trimmed ''#'' then Some (buildIrcTargetKey None trimmed)
      else if test nickRegex trimmed then Some (buildIrcTargetKey None trimmed)
      else None)"

section \<open>Access control\<close>

text \<open>
  \<^verbatim>\<open>new RegExp(source)\<close> on the sources the allowlist check builds,
  \<^verbatim>\<open>"^" + pattern.replace(/\*/g, ".*") + "$"\<close>. The body between the anchors is read
  as the language reads it: a dot is the class of all characters but line terminators, a
  star repeats the atom before it, a character that is no metacharacter stands for
  itself. A body with any other metacharacter is outside the model and gives \<open>None\<close>
  (the language raises a syntax error for some of them and builds an expression of
  another shape for the others).
\<close>

definition isSyntaxCharacter :: "char \<Rightarrow> bool" where
  "isSyntaxCharacter c =
     (c \<in> set [CHR ''^'', CHR ''$'', CHR 0x5C, CHR ''.'', CHR ''*'', CHR ''+'', CHR ''?'',
                CHR ''('', CHR '')'', CHR ''['', CHR '']'', CHR ''{'', CHR ''}'', CHR ''|''])"

definition atomOf :: "char \<Rightarrow> (char \<Rightarrow> bool) option" where
  "atomOf c =
     (if c = CHR ''.'' then Some dot
      else if isSyntaxCharacter c then None
      else Some (\<lambda>x. x = c))"

fun parseAtoms :: "string \<Rightarrow> item list option" where
  "parseAtoms [] = Some []"
| "parseAtoms [c] = map_option (\<lambda>P. [Item P One False]) (atomOf c)"
| "parseAtoms (c # d # cs) =
     (case atomOf c of
        None \<Rightarrow> None
      | Some P \<Rightarrow>
          if d = CHR ''*'' then map_option ((#) (Item P Star False)) (parseAtoms cs)
          else map_option ((#) (Item P One False)) (parseAtoms (d # cs)))"

definition RegExp :: "string \<Rightarrow> regex option" where
  "RegExp source =
     (case source of
        [] \<Rightarrow> None
      | c # body \<Rightarrow>
          if c = CHR ''^'' \<and> body \<noteq> [] \<and> last body = CHR ''$''
          then map_option (\<lambda>is. \<lparr>items = is, anchoredEnd = True\<rparr>) (parseAtoms (butlast body))
          else None)"

text \<open>\<^verbatim>\<open>pattern.replace(/\*/g, ".*")\<close>\<close>

definition replaceStars :: "string \<Rightarrow> string" where
  "replaceStars pattern = concat (map (\<lambda>c. if c = CHR ''*'' then ''.*'' else [c]) pattern)"

text \<open>The callback of the second \<^verbatim>\<open>users.some\<close>.\<close>

definition hostEntryMatches :: "string \<Rightarrow> string \<Rightarrow> bool option" where
  "hostEntryMatches hostLower u =
     (let pattern = toLowerCase u in
      if CHR ''*'' \<in> set pattern
      then map_option (\<lambda>regex. test regex hostLower)
             (RegExp (''^'' @ replaceStars pattern @ ''$''))
      else Some (hostLower = pattern))"

text \<open>
  \<^verbatim>\<open>users.some(f)\<close> calls \<open>f\<close> on the entries in order and stops at the first
  that holds, so that an entry behind it is never compiled.
\<close>

fun someEntry :: "(string \<Rightarrow> bool option) \<Rightarrow> string list \<Rightarrow> bool option" where
  "someEntry f [] = Some False"
| "someEntry f (u # us) =
     (case f u of
        None \<Rightarrow> None
      | Some True \<Rightarrow> Some True
      | Some False \<Rightarrow> someEntry f us)"

text \<open>
  The third argument is the \<^verbatim>\<open>users\<close> property of the network or channel entry,
  \<open>None\<close> where the entry is null or has none. The result is \<open>None\<close> where an
  entry that had to be compiled is outside the model.
\<close>

definition isUserAllowed :: "string \<Rightarrow> string \<Rightarrow> string list option \<Rightarrow> bool option" where
  "isUserAllowed nick hostname configUsers =
     (let users = (case configUsers of None \<Rightarrow> [] | Some us \<Rightarrow> us) in
      if length users = 0 then Some True
      else if list_ex (\<lambda>u. toLowerCase u = toLowerCase nick) users then Some True
      else if hostname \<noteq> [] then someEntry (hostEntryMatches (toLowerCase hostname)) users
      else Some False)"

text \<open>
  The allowlist rule in the words of the specification: a star matches any run of
  characters, every other character matches only itself, and the pattern has to match
  the whole text.
\<close>

fun wildcardMatch :: "string \<Rightarrow> string \<Rightarrow> bool" where
  "wildcardMatch [] s = (s = [])"
| "wildcardMatch (p # ps) [] = (p = CHR ''*'' \<and> wildcardMatch ps [])"
| "wildcardMatch (p # ps) (c # cs) =
     (if p = CHR ''*'' then wildcardMatch ps (c # cs) \<or> wildcardMatch (p # ps) cs
      else p = c \<and> wildcardMatch ps cs)"

definition isAllowedSpec :: "string \<Rightarrow> string \<Rightarrow> string list \<Rightarrow> bool" where
  "isAllowedSpec nick hostname allowlist =
     (allowlist = [] \<or>
      list_ex (\<lambda>e. toLowerCase e = toLowerCase nick) allowlist \<or>
      list_ex (\<lambda>e. wildcardMatch e hostname) allowlist)"

text \<open>
  Allowlist patterns by the metacharacters they hold: none but the star, or none but the
  star and the dot.
\<close>

definition plainWildcard :: "string \<Rightarrow> bool" where
  "plainWildcard p = list_all (\<lambda>c. c = CHR ''*'' \<or> \<not> isSyntaxCharacter c) p"

definition dottedWildcard :: "string \<Rightarrow> bool" where
  "dottedWildcard p = list_all (\<lambda>c. c = CHR ''*'' \<or> c = CHR ''.'' \<or> \<not> isSyntaxCharacter c) p"

definition nickListed :: "string \<Rightarrow> string list \<Rightarrow> bool" where
  "nickListed nick users = list_ex (\<lambda>u. toLowerCase u = toLowerCase nick) users"

definition hostListed :: "string \<Rightarrow> string list \<Rightarrow> bool" where
  "hostListed hostname users =
     list_ex (\<lambda>u. wildcardMatch (toLowerCase u) (toLowerCase hostname)) users"

text \<open>The item that the compiled expression holds for one character of a pattern.\<close>

definition globItem :: "char \<Rightarrow> item" where
  "globItem c =
     (if c = CHR ''*'' then Item dot Star False
      else if c = CHR ''.'' then Item dot One False
      else Item (\<lambda>x. x = c) One False)"

text \<open>
  The nick grammar: a letter or one of the special characters, then letters, digits and
  special characters.
\<close>

definition isNick :: "string \<Rightarrow> bool" where
  "isNick s = (s \<noteq> [] \<and> isNickStart (hd s) \<and> list_all isNickChar (tl s))"

definition plainEntries :: "string list \<Rightarrow> bool" where
  "plainEntries users =
     list_all (\<lambda>u. CHR 0x2A \<in> set (toLowerCase u) \<longrightarrow> plainWildcard (toLowerCase u)) users"

definition dottedEntries :: "string list \<Rightarrow> bool" where
  "dottedEntries users =
     list_all (\<lambda>u. CHR 0x2A \<in> set (toLowerCase u) \<longrightarrow> dottedWildcard (toLowerCase u)) users"

section \<open>The client wrapper\<close>

text \<open>
  The client of the protocol library is seen through the calls it receives, oldest
  first. The wrapper holds it in \<open>client\<close>, \<open>None\<close> for the \<^verbatim>\<open>null\<close> of a
  wrapper that has not connected yet.
\<close>

datatype IrcCall =
    Connect
  | Quit string
  | Say string string
  | Notice string string
  | Action string string
  | Join string

datatype IrcError = AlreadyConnected | FailedToCreate | NotConnected

record IrcClient =
  client :: "IrcCall list option"
  connected :: bool
  registered :: bool

text \<open>\<^verbatim>\<open>new IrcClient(options)\<close>, as \<^verbatim>\<open>createIrcClient\<close> builds it.\<close>

definition createIrcClient :: IrcClient where
  "createIrcClient = \<lparr>client = None, connected = False, registered = False\<rparr>"

text \<open>
  \<^verbatim>\<open>connect\<close>. \<open>created\<close> tells whether the constructor of the library gave an
  object; loading the library is taken to succeed.
\<close>

definition connect :: "bool \<Rightarrow> IrcClient \<Rightarrow> IrcError + IrcClient" where
  "connect created c =
     (if connected c then Inl AlreadyConnected
      else if \<not> created then Inl FailedToCreate
      else Inr (c\<lparr>client := Some [Connect], connected := True\<rparr>))"

text \<open>The handler that \<^verbatim>\<open>setupEventHandlers\<close> installs for the registered event.\<close>

definition onRegisteredEvent :: "IrcClient \<Rightarrow> IrcClient" where
  "onRegisteredEvent c = c\<lparr>registered := True\<rparr>"

definition disconnect :: "string option \<Rightarrow> IrcClient \<Rightarrow> IrcClient" where
  "disconnect reason c =
     (case client c of
        None \<Rightarrow> c
      | Some calls \<Rightarrow>
          if \<not> connected c then c
          else c\<lparr>client :=
                   Some (calls @ [Quit (case reason of
                                         None \<Rightarrow> ''Bot shutting down''
                                       | Some r \<Rightarrow> if r = [] then ''Bot shutting down'' else r)]),
                 connected := False, registered := False\<rparr>)"

definition isConnected :: "IrcClient \<Rightarrow> bool" where
  "isConnected c = connected c"

definition isRegistered :: "IrcClient \<Rightarrow> bool" where
  "isRegistered c = registered c"

definition call :: "IrcCall \<Rightarrow> IrcClient \<Rightarrow> IrcError + IrcClient" where
  "call k c =
     (case client c of
        None \<Rightarrow> Inl NotConnected
      | Some calls \<Rightarrow> Inr (c\<lparr>client := Some (calls @ [k])\<rparr>))"

definition say :: "string \<Rightarrow> string \<Rightarrow> IrcClient \<Rightarrow> IrcError + IrcClient" where
  "say tgt message = call (Say tgt message)"

definition notice :: "string \<Rightarrow> string \<Rightarrow> IrcClient \<Rightarrow> IrcError + IrcClient" where
  "notice tgt message = call (Notice tgt message)"

definition action :: "string \<Rightarrow> string \<Rightarrow> IrcClient \<Rightarrow> IrcError + IrcClient" where
  "action tgt message = call (Action tgt message)"

definition join :: "string \<Rightarrow> IrcClient \<Rightarrow> IrcError + IrcClient" where
  "join channel = call (Join channel)"

section \<open>Sending a message\<close>

text \<open>
  The options of \<^verbatim>\<open>sendMessageIrc\<close>. An option that is left out is \<open>False\<close>, and
  the empty string for the prefix: the source only tests them for truth.
\<close>

record SendOptions =
  optAction :: bool
  optNotice :: bool
  split :: bool
  splitPrefix :: string

definition MAX_LENGTH :: nat where
  "MAX_LENGTH = 400"

text \<open>
  \<^verbatim>\<open>s.lastIndexOf(c, position)\<close> for a single character: the greatest index up to
  \<open>position\<close> that holds \<open>c\<close>, or -1.
\<close>

definition lastIndexOf :: "string \<Rightarrow> char \<Rightarrow> nat \<Rightarrow> int" where
  "lastIndexOf s c position =
     (let r = dropWhile (\<lambda>x. x \<noteq> c) (rev (take (Suc position) s))
      in if r = [] then - 1 else int (length r) - 1)"

text \<open>The body of the loop up to the two slices: the index to cut at.\<close>

definition splitIndexOf :: "string \<Rightarrow> nat" where
  "splitIndexOf remaining =
     (let lastNewline = lastIndexOf remaining (CHR 0x0A) MAX_LENGTH in
      if lastNewline > int MAX_LENGTH - 100 then nat (lastNewline + 1)
      else
        let lastSpace = lastIndexOf remaining (CHR '' '') MAX_LENGTH in
        if lastSpace > int MAX_LENGTH - 50 then nat (lastSpace + 1)
        else
          let lastPunct =
                max (lastIndexOf remaining (CHR ''.'') MAX_LENGTH)
                 (max (lastIndexOf remaining (CHR '','') MAX_LENGTH)
                   (max (lastIndexOf remaining (CHR '';'') MAX_LENGTH)
                     (max (lastIndexOf remaining (CHR ''!'') MAX_LENGTH)
                          (lastIndexOf remaining (CHR ''?'') MAX_LENGTH))))
          in if lastPunct > int MAX_LENGTH - 50 then nat (lastPunct + 1) else MAX_LENGTH)"

text \<open>The while loop and the push of the rest behind it.\<close>

function splitChunks :: "string \<Rightarrow> string list" where
  "splitChunks remaining =
     (if length remaining > MAX_LENGTH
      then trimEnd (take (splitIndexOf remaining) remaining) #
           splitChunks (trimStart (drop (splitIndexOf remaining) remaining))
      else if remaining \<noteq> [] then [remaining] else [])"
  by pat_completeness auto

lemma splitIndexOf_pos: "0 < splitIndexOf s"
  by (auto simp: splitIndexOf_def Let_def MAX_LENGTH_def)

termination splitChunks
proof (relation "measure length")
  fix remaining :: string
  assume long: "MAX_LENGTH < length remaining"
  have "length (trimStart (drop (splitIndexOf remaining) remaining))
        \<le> length (drop (splitIndexOf remaining) remaining)"
    unfolding trimStart_def by (rule length_dropWhile_le)
  also have "\<dots> < length remaining"
    using splitIndexOf_pos [of remaining] long by simp
  finally show "(trimStart (drop (splitIndexOf remaining) remaining), remaining) \<in> measure length"
    by simp
qed simp

declare splitChunks.simps [simp del]

text \<open>The message of chunk \<open>i\<close> out of \<open>n\<close>: the prefix on all but the first, the marker on all but the last.\<close>

definition chunkMessage :: "string \<Rightarrow> nat \<Rightarrow> nat \<Rightarrow> string \<Rightarrow> string" where
  "chunkMessage pre n i chunk =
     (let isFirst = (i = 0);
          isLast = (i = n - 1);
          message = chunk;
          message = (if \<not> isFirst \<and> pre \<noteq> [] then pre @ '' '' @ message else message);
          message = (if \<not> isLast then message @ '' ...'' else message)
      in message)"

text \<open>The three-way choice of the protocol call, the same in both places of the source.\<close>

definition emit :: "SendOptions \<Rightarrow> string \<Rightarrow> string \<Rightarrow> IrcClient \<Rightarrow> IrcError + IrcClient" where
  "emit opts tgt message c =
     (if optAction opts then action tgt message c
      else if optNotice opts then notice tgt message c
      else say tgt message c)"

text \<open>
  The for loop over the chunks, from index \<open>i\<close> on. The pause between two chunks is not
  part of the model: nothing else touches the client while the loop waits.
\<close>

function sendChunksFrom ::
  "SendOptions \<Rightarrow> string \<Rightarrow> string list \<Rightarrow> nat \<Rightarrow> IrcClient \<Rightarrow> IrcError + IrcClient" where
  "sendChunksFrom opts tgt chunks i c =
     (if i < length chunks
      then (case emit opts tgt (chunkMessage (splitPrefix opts) (length chunks) i (chunks ! i)) c of
              Inl e \<Rightarrow> Inl e
            | Inr c' \<Rightarrow> sendChunksFrom opts tgt chunks (Suc i) c')
      else Inr c)"
  by pat_completeness auto

termination sendChunksFrom
  by (relation "measure (\<lambda>(opts, tgt, chunks, i, c). length chunks - i)") auto

declare sendChunksFrom.simps [simp del]

definition sendMessageIrc ::
  "IrcClient \<Rightarrow> string \<Rightarrow> string \<Rightarrow> SendOptions \<Rightarrow> IrcError + IrcClient" where
  "sendMessageIrc c tgt text opts =
     (if \<not> isConnected c then Inl NotConnected
      else if length text \<le> MAX_LENGTH \<or> \<not> split opts then emit opts tgt text c
      else sendChunksFrom opts tgt (splitChunks text) 0 c)"

text \<open>The messages of a list of chunks, in the order of the loop.\<close>

definition messagesOf :: "string \<Rightarrow> string list \<Rightarrow> string list" where
  "messagesOf pre chunks =
     map (\<lambda>i. chunkMessage pre (length chunks) i (chunks ! i)) [0..<length chunks]"

definition kindOf :: "SendOptions \<Rightarrow> string \<Rightarrow> string \<Rightarrow> IrcCall" where
  "kindOf opts tgt message =
     (if optAction opts then Action tgt message
      else if optNotice opts then Notice tgt message
      else Say tgt message)"

text \<open>The messages of one call of \<^verbatim>\<open>sendMessageIrc\<close>, in the order of the protocol calls.\<close>

definition outgoing :: "SendOptions \<Rightarrow> string \<Rightarrow> string list" where
  "outgoing opts text =
     (if length text \<le> MAX_LENGTH \<or> \<not> split opts then [text]
      else messagesOf (splitPrefix opts) (splitChunks text))"

definition isPunctuation :: "char \<Rightarrow> bool" where
  "isPunctuation c = (c \<in> set ''.,;!?'')"

text \<open>
  The budget of one chunk: at most 400 characters, or 401 with a punctuation mark in the
  last place.
\<close>

definition chunkWithinBudget :: "string \<Rightarrow> bool" where
  "chunkWithinBudget ch =
     (length ch \<le> MAX_LENGTH \<or> (length ch = Suc MAX_LENGTH \<and> isPunctuation (last ch)))"

text \<open>The chunks of a text when splitting is on: the text itself when it fits.\<close>

definition textChunks :: "string \<Rightarrow> string list" where
  "textChunks text = (if length text \<le> MAX_LENGTH then [text] else splitChunks text)"

text \<open>The fallback of the loop body: none of the three searches finds a place to cut.\<close>

definition hardCut :: "string \<Rightarrow> bool" where
  "hardCut remaining =
     (\<not> lastIndexOf remaining (CHR 0x0A) MAX_LENGTH > int MAX_LENGTH - 100 \<and>
      \<not> lastIndexOf remaining (CHR '' '') MAX_LENGTH > int MAX_LENGTH - 50 \<and>
      \<not> max (lastIndexOf remaining (CHR ''.'') MAX_LENGTH)
           (max (lastIndexOf remaining (CHR '','') MAX_LENGTH)
             (max (lastIndexOf remaining (CHR '';'') MAX_LENGTH)
               (max (lastIndexOf remaining (CHR ''!'') MAX_LENGTH)
                    (lastIndexOf remaining (CHR ''?'') MAX_LENGTH)))) > int MAX_LENGTH - 50)"

definition plainOptions :: SendOptions where
  "plainOptions = \<lparr>optAction = False, optNotice = False, split = True, splitPrefix = []\<rparr>"


text \<open>
  The bytes of a string in UTF-8: one for a code unit below 128, two for the others of
  the model.
\<close>

definition utf8Length :: "string \<Rightarrow> nat" where
  "utf8Length s = sum_list (map (\<lambda>c. if codeUnit c < 128 then 1 else 2) s)"



definition liveClient :: IrcClient where
  "liveClient = \<lparr>client = Some [Connect], connected = True, registered = True\<rparr>"

section \<open>Account configuration\<close>

text \<open>
  The configuration objects, with the properties that the modelled functions read. A
  property that is left out, or whose value counts as false where the source tests it, is
  \<open>None\<close>. An object with string keys is the list of its own entries in the order
  of \<^verbatim>\<open>Object.keys\<close>. Indexing it with a key that is not its own finds what a
  plain object inherits.
\<close>

record ServerConfig =
  host :: string
  port :: "nat option"
  tls :: "bool option"
  nick :: string

record ChannelConfig =
  channelEnabled :: "bool option"

record NetworkEntry =
  channels :: "(string \<times> ChannelConfig) list option"

record AccountConfig =
  enabled :: "bool option"
  server :: "ServerConfig option"
  networks :: "(string \<times> NetworkEntry) list option"

text \<open>\<^verbatim>\<open>cfg.channels?.irc\<close>: the single account at the top level and the map of accounts.\<close>

record IrcConfig = AccountConfig +
  accounts :: "(string \<times> AccountConfig) list option"

record ResolvedIrcAccount =
  resolvedId :: string
  config :: AccountConfig
  serverConfig :: "ServerConfig option"

datatype AccountError =
    NotConfigured
  | AccountNotFound string "string list"
  | AccountMissingServer string
  | OnlyDefaultConfigured string

text \<open>\<^verbatim>\<open>keys.join(", ")\<close>\<close>

fun joinComma :: "string list \<Rightarrow> string" where
  "joinComma [] = []"
| "joinComma [k] = k"
| "joinComma (k # ks) = k @ '', '' @ joinComma ks"

text \<open>
  The messages of the errors of \<^verbatim>\<open>accounts-resolver.ts\<close>; U+0022 is the double
  quote. In \<^verbatim>\<open>accounts.ts\<close> the first message ends after \<^verbatim>\<open>channels.irc.server\<close>.
\<close>

fun errorMessage :: "AccountError \<Rightarrow> string" where
  "errorMessage NotConfigured =
     ''IRC is not configured. Set channels.irc.server or channels.irc.accounts''"
| "errorMessage (AccountNotFound a available) =
     ''IRC account '' @ [CHR 0x22] @ a @ [CHR 0x22] @ '' not found. Available: '' @
     joinComma available"
| "errorMessage (AccountMissingServer a) =
     ''IRC account '' @ [CHR 0x22] @ a @ [CHR 0x22] @ '' missing server configuration''"
| "errorMessage (OnlyDefaultConfigured a) =
     ''IRC account '' @ [CHR 0x22] @ a @ [CHR 0x22] @
     '' requested but only default account is configured''"

text \<open>
  \<^verbatim>\<open>normalizeAccountId\<close> and \<^verbatim>\<open>DEFAULT_ACCOUNT_ID\<close> come from the routing
  module, which is not among the sources: they are the parameters \<open>norm\<close> and
  \<open>dflt\<close>. \<^verbatim>\<open>normalizeAccountId(id) ?? id\<close>:
\<close>

definition normalized :: "(string \<Rightarrow> string option) \<Rightarrow> string \<Rightarrow> string" where
  "normalized norm a = (case norm a of None \<Rightarrow> a | Some n \<Rightarrow> n)"

definition listIrcAccountIds ::
  "(string \<Rightarrow> string option) \<Rightarrow> string \<Rightarrow> IrcConfig option \<Rightarrow> string list" where
  "listIrcAccountIds norm dflt cfg =
     (case cfg of
        None \<Rightarrow> []
      | Some ircCfg \<Rightarrow>
          (case accounts ircCfg of
             Some accs \<Rightarrow>
               map (\<lambda>(a, account). normalized norm a)
                 (filter (\<lambda>(a, account). enabled account \<noteq> Some False) accs)
           | None \<Rightarrow>
               if enabled ircCfg \<noteq> Some False \<and> server ircCfg \<noteq> None then [dflt] else []))"

definition resolveDefaultIrcAccountId ::
  "(string \<Rightarrow> string option) \<Rightarrow> string \<Rightarrow> IrcConfig option \<Rightarrow> string" where
  "resolveDefaultIrcAccountId norm dflt cfg =
     (let ids = listIrcAccountIds norm dflt cfg in
      if length ids = 0 then dflt
      else if length ids = 1 then hd ids
      else dflt)"

text \<open>
  The property names that every plain object inherits: indexing an object with one of
  them finds a value that is no account and has no server block.
\<close>

definition objectPrototypeKeys :: "string list" where
  "objectPrototypeKeys =
     [''constructor'', ''__defineGetter__'', ''__defineSetter__'', ''hasOwnProperty'',
      ''__lookupGetter__'', ''__lookupSetter__'', ''isPrototypeOf'', ''propertyIsEnumerable'',
      ''toString'', ''valueOf'', ''__proto__'', ''toLocaleString'']"

text \<open>
  The part that the two \<^verbatim>\<open>resolveIrcAccount\<close> share, from the comment
  "Multi-account mode" on. The account id that is given is \<open>None\<close> when it is left
  out, null or the empty string.
\<close>

definition resolveIn :: "IrcConfig \<Rightarrow> string \<Rightarrow> string \<Rightarrow> AccountError + ResolvedIrcAccount" where
  "resolveIn ircCfg dflt a =
     (case accounts ircCfg of
        Some accs \<Rightarrow>
          (case map_of accs a of
             None \<Rightarrow>
               if a \<in> set objectPrototypeKeys then Inl (AccountMissingServer a)
               else Inl (AccountNotFound a (map fst accs))
           | Some account \<Rightarrow>
               if server account = None then Inl (AccountMissingServer a)
               else Inr \<lparr>resolvedId = a, config = account, serverConfig = server account\<rparr>)
      | None \<Rightarrow>
          if a \<noteq> dflt then Inl (OnlyDefaultConfigured a)
          else Inr \<lparr>resolvedId = dflt, config = AccountConfig.truncate ircCfg,
                    serverConfig = server ircCfg\<rparr>)"

definition givenId :: "string option \<Rightarrow> string option" where
  "givenId inputAccountId =
     (case inputAccountId of None \<Rightarrow> None | Some a \<Rightarrow> if a = [] then None else Some a)"

text \<open>\<^verbatim>\<open>resolveIrcAccount\<close> of \<^verbatim>\<open>accounts.ts\<close>, which the monitor uses.\<close>

definition resolveIrcAccount ::
  "(string \<Rightarrow> string option) \<Rightarrow> string \<Rightarrow> IrcConfig option \<Rightarrow> string option \<Rightarrow>
   AccountError + ResolvedIrcAccount" where
  "resolveIrcAccount norm dflt cfg inputAccountId =
     (case cfg of
        None \<Rightarrow> Inl NotConfigured
      | Some ircCfg \<Rightarrow>
          if server ircCfg = None then Inl NotConfigured
          else resolveIn ircCfg dflt
                 (case givenId inputAccountId of
                    Some a \<Rightarrow> normalized norm a
                  | None \<Rightarrow> resolveDefaultIrcAccountId norm dflt cfg))"

text \<open>\<^verbatim>\<open>resolveIrcAccount\<close> of \<^verbatim>\<open>accounts-resolver.ts\<close>, which the send wrapper uses.\<close>

definition resolveIrcAccountResolver ::
  "(string \<Rightarrow> string option) \<Rightarrow> string \<Rightarrow> IrcConfig option \<Rightarrow> string option \<Rightarrow>
   AccountError + ResolvedIrcAccount" where
  "resolveIrcAccountResolver norm dflt cfg inputAccountId =
     (case cfg of
        None \<Rightarrow> Inl NotConfigured
      | Some ircCfg \<Rightarrow>
          if server ircCfg = None \<and> accounts ircCfg = None then Inl NotConfigured
          else resolveIn ircCfg dflt
                 (case givenId inputAccountId of
                    Some a \<Rightarrow> normalized norm a
                  | None \<Rightarrow> dflt))"

text \<open>A configuration with one account in the map and nothing at the top level.\<close>

definition workServer :: ServerConfig where
  "workServer = \<lparr>host = ''irc.libera.chat'', port = Some 6697, tls = Some True, nick = ''claw''\<rparr>"

definition workAccount :: AccountConfig where
  "workAccount =
     \<lparr>enabled = None, server = Some workServer,
      networks = Some [(''libera'',
                        \<lparr>channels = Some [(''general'', \<lparr>channelEnabled = None\<rparr>),
                                          (''#off'', \<lparr>channelEnabled = Some False\<rparr>)]\<rparr>)]\<rparr>"

definition accountsOnly :: IrcConfig where
  "accountsOnly = \<lparr>enabled = None, server = None, networks = None,
                    accounts = Some [(''work'', workAccount)]\<rparr>"

text \<open>A configuration with a server block at the top level and no map of accounts.\<close>

definition topLevelOnly :: IrcConfig where
  "topLevelOnly = \<lparr>enabled = None, server = Some workServer, networks = None, accounts = None\<rparr>"

section \<open>The monitor\<close>

text \<open>
  What the handlers of \<^verbatim>\<open>monitorIrcProvider\<close> see and change: the wrapper, the
  flag \<^verbatim>\<open>stopped\<close>, the lines written through the runtime and the logger, the names
  of the events for which \<^verbatim>\<open>internalHandlers\<close> holds a handler, and the events that
  were passed on to these handlers.
\<close>

datatype LogEntry =
    LogConnected string nat string
  | LogClosed
  | LogError string
  | DebugMessage string string
  | DebugNotice string string

datatype MonitorEvent =
    EvRegistered
  | EvMessage string string string
  | EvNotice string string
  | EvError string
  | EvClose

record Monitor =
  wrapper :: IrcClient
  stopped :: bool
  account :: ResolvedIrcAccount
  logged :: "LogEntry list"
  internalHandlers :: "string list"
  forwarded :: "MonitorEvent list"

text \<open>"Call external handler if registered".\<close>

definition forward :: "string \<Rightarrow> MonitorEvent \<Rightarrow> Monitor \<Rightarrow> Monitor" where
  "forward name ev m =
     (if name \<in> set (internalHandlers m) then m\<lparr>forwarded := forwarded m @ [ev]\<rparr> else m)"

text \<open>The channels to join, in the order of the two loops.\<close>

definition autoJoinChannels :: "AccountConfig \<Rightarrow> string list" where
  "autoJoinChannels cfg =
     concat (map (\<lambda>(networkName, networkConfig).
                    map (\<lambda>(channelName, channel).
                           if startsWith channelName ''#'' then channelName
                           else ''#'' @ channelName)
                      (filter (\<lambda>(channelName, channel). channelEnabled channel \<noteq> Some False)
                         (case channels networkConfig of None \<Rightarrow> [] | Some cs \<Rightarrow> cs)))
            (case networks cfg of None \<Rightarrow> [] | Some ns \<Rightarrow> ns))"

fun joinAll :: "string list \<Rightarrow> IrcClient \<Rightarrow> IrcError + IrcClient" where
  "joinAll [] c = Inr c"
| "joinAll (ch # chs) c = (case join ch c of Inl e \<Rightarrow> Inl e | Inr c' \<Rightarrow> joinAll chs c')"

definition serverOf :: "ResolvedIrcAccount \<Rightarrow> ServerConfig" where
  "serverOf a = (case serverConfig a of Some s \<Rightarrow> s
                 | None \<Rightarrow> \<lparr>host = [], port = None, tls = None, nick = []\<rparr>)"

definition onRegistered :: "Monitor \<Rightarrow> IrcError + Monitor" where
  "onRegistered m =
     (let s = serverOf (account m);
          m1 = m\<lparr>logged := logged m @
                   [LogConnected (host s) (case port s of None \<Rightarrow> 6697
                                           | Some p \<Rightarrow> if p = 0 then 6697 else p) (nick s)]\<rparr>
      in case joinAll (autoJoinChannels (config (account m))) (wrapper m1) of
           Inl e \<Rightarrow> Inl e
         | Inr c \<Rightarrow> Inr (forward ''registered'' EvRegistered (m1\<lparr>wrapper := c\<rparr>)))"

definition onMessage :: "string \<Rightarrow> string \<Rightarrow> string \<Rightarrow> Monitor \<Rightarrow> Monitor" where
  "onMessage n tgt message m =
     (if stopped m then m
      else forward ''message'' (EvMessage n tgt message)
             (m\<lparr>logged := logged m @ [DebugMessage n message]\<rparr>))"

definition onNotice :: "string \<Rightarrow> string \<Rightarrow> Monitor \<Rightarrow> Monitor" where
  "onNotice n message m =
     (if stopped m then m
      else forward ''notice'' (EvNotice n message)
             (m\<lparr>logged := logged m @ [DebugNotice n message]\<rparr>))"

definition onError :: "string \<Rightarrow> Monitor \<Rightarrow> Monitor" where
  "onError message m =
     forward ''error'' (EvError message) (m\<lparr>logged := logged m @ [LogError message]\<rparr>)"

definition onClose :: "Monitor \<Rightarrow> Monitor" where
  "onClose m =
     forward ''close'' EvClose
       (if \<not> stopped m then m\<lparr>logged := logged m @ [LogClosed]\<rparr> else m)"

definition dispatch :: "MonitorEvent \<Rightarrow> Monitor \<Rightarrow> IrcError + Monitor" where
  "dispatch ev m =
     (case ev of
        EvRegistered \<Rightarrow> onRegistered m
      | EvMessage n tgt message \<Rightarrow> Inr (onMessage n tgt message m)
      | EvNotice n message \<Rightarrow> Inr (onNotice n message m)
      | EvError message \<Rightarrow> Inr (onError message m)
      | EvClose \<Rightarrow> Inr (onClose m))"

text \<open>The \<^verbatim>\<open>stop\<close> of the handle.\<close>

definition stop :: "Monitor \<Rightarrow> Monitor" where
  "stop m = m\<lparr>stopped := True, wrapper := disconnect (Some ''Monitoring stopped'') (wrapper m)\<rparr>"

text \<open>
  \<^verbatim>\<open>monitorIrcProvider\<close>. The handlers are attached to the \<^verbatim>\<open>client\<close> property
  of the wrapper as it is right after \<^verbatim>\<open>createIrcClient\<close>, before
  \<^verbatim>\<open>connect\<close>; calling \<^verbatim>\<open>on\<close> on null raises a type error.
\<close>

datatype MonitorError = ConfigFailure AccountError | NullClient | ClientFailure IrcError

definition monitorIrcProvider ::
  "(string \<Rightarrow> string option) \<Rightarrow> string \<Rightarrow> IrcConfig option \<Rightarrow> string option \<Rightarrow>
   MonitorError + Monitor" where
  "monitorIrcProvider norm dflt cfg inputAccountId =
     (case resolveIrcAccount norm dflt cfg inputAccountId of
        Inl e \<Rightarrow> Inl (ConfigFailure e)
      | Inr acct \<Rightarrow>
          (case client createIrcClient of
             None \<Rightarrow> Inl NullClient
           | Some calls \<Rightarrow>
               (case connect True createIrcClient of
                  Inl e \<Rightarrow> Inl (ClientFailure e)
                | Inr c \<Rightarrow>
                    Inr \<lparr>wrapper = c, stopped = False, account = acct, logged = [],
                         internalHandlers = [], forwarded = []\<rparr>)))"

text \<open>A monitor that runs, with handlers for all five events, and its account.\<close>

definition workResolved :: ResolvedIrcAccount where
  "workResolved = \<lparr>resolvedId = ''work'', config = workAccount, serverConfig = Some workServer\<rparr>"

definition runningMonitor :: Monitor where
  "runningMonitor =
     \<lparr>wrapper = liveClient, stopped = False, account = workResolved, logged = [],
      internalHandlers = [''registered'', ''message'', ''notice'', ''error'', ''close''],
      forwarded = []\<rparr>"

section \<open>The probe\<close>

datatype ProbeError = NullClientOn | TimeoutAfter nat | Message string | ClientError IrcError

record IrcProbeResult =
  ok :: bool
  probeConnected :: "bool option"
  error :: "ProbeError option"
  probeHost :: string
  probePort :: nat
  probeNick :: string

text \<open>
  What decides the race of \<^verbatim>\<open>probeIrc\<close>: the first event of the library client
  that the listeners were attached to, with the nick that it holds at the registered
  event, or the timer.
\<close>

datatype ProbeEvent = Registered "string option" | ErrorEvent string | CloseEvent | TimerFired

text \<open>
  A run of the probe: the result that is returned, the wrapper at the end, how often
  \<^verbatim>\<open>cleanup\<close> ran and whether the listeners are still attached.
\<close>

record ProbeRun =
  result :: IrcProbeResult
  probeClient :: IrcClient
  cleanups :: nat
  listening :: bool

definition cleanup :: "ProbeRun \<Rightarrow> ProbeRun" where
  "cleanup r = r\<lparr>listening := False,
                  probeClient := disconnect (Some ''Probe complete'') (probeClient r),
                  cleanups := Suc (cleanups r)\<rparr>"

text \<open>The body of \<^verbatim>\<open>probeIrc\<close> behind \<^verbatim>\<open>createIrcClient\<close>, on the wrapper \<open>w\<close>.\<close>

definition probeOn :: "IrcClient \<Rightarrow> ServerConfig \<Rightarrow> nat \<Rightarrow> ProbeEvent \<Rightarrow> ProbeRun" where
  "probeOn w sc timeoutMs ev =
     (let r0 = \<lparr>result = \<lparr>ok = False, probeConnected = None, error = None,
                           probeHost = host sc,
                           probePort = (case port sc of None \<Rightarrow> 6697 | Some p \<Rightarrow> p),
                           probeNick = nick sc\<rparr>,
                 probeClient = w, cleanups = 0, listening = False\<rparr>
      in case client w of
           None \<Rightarrow> r0\<lparr>result := (result r0)\<lparr>error := Some NullClientOn\<rparr>\<rparr>
         | Some calls \<Rightarrow>
             (case connect True w of
                Inl e \<Rightarrow>
                  cleanup (r0\<lparr>listening := True,
                              result := (result r0)\<lparr>error := Some (ClientError e)\<rparr>\<rparr>)
              | Inr w' \<Rightarrow>
                  (let r1 = r0\<lparr>listening := True, probeClient := w'\<rparr> in
                   case ev of
                     Registered assigned \<Rightarrow>
                       cleanup (r1\<lparr>result := (result r1)
                                  \<lparr>ok := True, probeConnected := Some True,
                                   probeNick := (case assigned of
                                                   None \<Rightarrow> nick sc
                                                 | Some n \<Rightarrow> if n = [] then nick sc else n)\<rparr>\<rparr>)
                   | ErrorEvent message \<Rightarrow>
                       cleanup (r1\<lparr>result := (result r1)\<lparr>error := Some (Message message)\<rparr>\<rparr>)
                   | CloseEvent \<Rightarrow>
                       cleanup (r1\<lparr>result := (result r1)
                                  \<lparr>error := Some (Message ''Connection closed'')\<rparr>\<rparr>)
                   | TimerFired \<Rightarrow>
                       r1\<lparr>result := (result r1)\<lparr>error := Some (TimeoutAfter timeoutMs)\<rparr>\<rparr>)))"

definition probeIrc :: "ServerConfig \<Rightarrow> nat \<Rightarrow> ProbeEvent \<Rightarrow> ProbeRun" where
  "probeIrc sc timeoutMs ev = probeOn createIrcClient sc timeoutMs ev"

section \<open>Properties of strings and of the matcher\<close>

lemma codeUnit_lowerChar:
  "codeUnit (lowerChar c) = (if isUpperCase c then codeUnit c + 32 else codeUnit c)"
proof (cases c)
  case (Char b0 b1 b2 b3 b4 b5 b6 b7)
  show ?thesis unfolding Char lowerChar_def isUpperCase_def codeUnit_def
    by (cases b5; cases b6; cases b7; cases b4; cases b3; cases b2; cases b1; cases b0; simp)
qed

lemma codeUnit_inj: "codeUnit c = codeUnit d \<Longrightarrow> c = d"
  by (simp add: codeUnit_def)

lemma isLineTerminator_lowerChar [simp]: "isLineTerminator (lowerChar c) = isLineTerminator c"
  by (auto simp: isLineTerminator_def codeUnit_lowerChar isUpperCase_def)

lemma length_toLowerCase [simp]: "length (toLowerCase s) = length s"
  by (simp add: toLowerCase_def)

lemma toLowerCase_Nil_iff [simp]: "toLowerCase s = [] \<longleftrightarrow> s = []"
  by (simp add: toLowerCase_def)

lemma rexec_lit [simp]:
  "rexec (lit c # is) e (x # xs) = (if x = c then rexec is e xs else None)"
  "rexec (lit c # is) e [] = None"
  by (simp_all add: lit_def extendGroup_def openGroup_def option.map_ident comp_def)

text \<open>
  A quantified class that is followed by a character it refuses takes the whole run, once
  the rest of the expression matches behind it.
\<close>

lemma rexec_Star_run:
  assumes "\<forall>c\<in>set a. P c" and "r = [] \<or> \<not> P (hd r)" and "rexec is e r = Some gs"
  shows "rexec (Item P Star cap # is) e (a @ r) = Some (if cap then a # gs else gs)"
  using assms
proof (induction a)
  case Nil
  then show ?case by (cases r) (auto simp: openGroup_def)
next
  case (Cons x a)
  then show ?case by (simp add: extendGroup_def)
qed

lemma rexec_Plus_run:
  assumes "a \<noteq> []" and "\<forall>c\<in>set a. P c" and "r = [] \<or> \<not> P (hd r)"
    and "rexec is e r = Some gs"
  shows "rexec (Item P Plus cap # is) e (a @ r) = Some (if cap then a # gs else gs)"
proof (cases a)
  case Nil
  with assms show ?thesis by simp
next
  case (Cons x a')
  with assms have "rexec (Item P Star cap # is) e (a' @ r) = Some (if cap then a' # gs else gs)"
    by (intro rexec_Star_run) auto
  with Cons assms show ?thesis by (simp add: extendGroup_def)
qed

text \<open>
  A quantified class in front of a character that it refuses has no choice: it takes
  the whole run, and giving characters back cannot help the literal behind it.
\<close>

lemma rexec_Star_then_lit:
  "\<not> P c \<Longrightarrow>
   rexec (Item P Star cap # lit c # is) e s =
     map_option (\<lambda>gs. if cap then takeWhile P s # gs else gs)
       (rexec (lit c # is) e (dropWhile P s))"
proof (induction s)
  case Nil
  then show ?case by (simp add: openGroup_def)
next
  case (Cons x xs)
  show ?case
  proof (cases "P x")
    case True
    with Cons.prems have "x \<noteq> c" by auto
    with True Cons show ?thesis
      by (cases "rexec (lit c # is) e (dropWhile P xs)")
         (simp_all add: extendGroup_def openGroup_def)
  next
    case False
    then show ?thesis
      by (cases "rexec (lit c # is) e (x # xs)") (simp_all add: openGroup_def)
  qed
qed

lemma rexec_Plus_then_lit:
  "\<not> P c \<Longrightarrow>
   rexec (Item P Plus cap # lit c # is) e s =
     (if takeWhile P s = [] then None
      else map_option (\<lambda>gs. if cap then takeWhile P s # gs else gs)
             (rexec (lit c # is) e (dropWhile P s)))"
proof (cases s)
  case Nil
  then show ?thesis by simp
next
  case (Cons x xs)
  assume "\<not> P c"
  then have "rexec (Item P Star cap # lit c # is) e xs =
     map_option (\<lambda>gs. if cap then takeWhile P xs # gs else gs)
       (rexec (lit c # is) e (dropWhile P xs))"
    by (rule rexec_Star_then_lit)
  with Cons show ?thesis
    by (cases "rexec (lit c # is) e (dropWhile P xs)") (simp_all add: extendGroup_def)
qed

lemma rexec_Star_all:
  "rexec [Item P Star True] True s = (if list_all P s then Some [s] else None)"
  by (induction s) (auto simp: openGroup_def extendGroup_def)

lemma rexec_Plus_all:
  "rexec [Item P Plus True] True s = (if s \<noteq> [] \<and> list_all P s then Some [s] else None)"
  by (cases s) (auto simp: rexec_Star_all extendGroup_def)

section \<open>Target keys: the round trip\<close>

lemma exec_targetKey:
  assumes "a \<noteq> []" and "CHR '':'' \<notin> set a"
  shows "exec targetKeyRegex (''irc:'' @ a @ '':'' @ t) =
         (if t \<noteq> [] \<and> list_all dot t then Some [a, t] else None)"
proof -
  have tw: "takeWhile (\<lambda>c. c \<noteq> CHR '':'') (a @ CHR '':'' # t) = a"
    using assms(2) by (subst takeWhile_append2) auto
  have dw: "dropWhile (\<lambda>c. c \<noteq> CHR '':'') (a @ CHR '':'' # t) = CHR '':'' # t"
    using assms(2) by (subst dropWhile_append2) auto
  have "rexec [Item (\<lambda>c. c \<noteq> CHR '':'') Plus True, lit CHR '':'', Item dot Plus True] True
          (a @ CHR '':'' # t) =
        (if t \<noteq> [] \<and> list_all dot t then Some [a, t] else None)"
    using assms(1) by (subst rexec_Plus_then_lit) (simp_all add: tw dw rexec_Plus_all)
  then show ?thesis by (simp add: exec_def targetKeyRegex_def)
qed

lemma parse_build:
  assumes "a \<noteq> []" and "CHR '':'' \<notin> set a"
  shows "parseIrcTargetKey (buildIrcTargetKey (Some a) t) =
         (if t \<noteq> [] \<and> \<not> list_ex isLineTerminator t
          then Some \<lparr>accountId = a, target = toLowerCase t\<rparr> else None)"
proof -
  have "list_all dot (toLowerCase t) = (\<not> list_ex isLineTerminator t)"
    by (simp add: toLowerCase_def list_all_iff list_ex_iff dot_def)
  then show ?thesis
    using exec_targetKey [OF assms, of "toLowerCase t"]
    by (simp add: parseIrcTargetKey_def buildIrcTargetKey_def)
qed

lemma matchesAccountId_no_colon: "matchesAccountId a \<Longrightarrow> CHR '':'' \<notin> set a"
  by (auto simp: matchesAccountId_def list_all_iff isAsciiLower_def isAsciiDigit_def codeUnit_def)

text \<open>
  C2, as the code has it. For every account id matching \<^verbatim>\<open>[a-z0-9_-]+\<close> and every
  target without a colon, decoding the encoded key gives back the account id and the
  lower-cased target when the target is not empty and holds no line terminator, and
  null otherwise: the capture \<^verbatim>\<open>(.+)$\<close> needs at least one character, and its dot
  refuses line terminators. Among the code units of the model the line terminators are
  the line feed and the carriage return; U+2028 and U+2029, which the dot refuses as
  well, lie beyond them.
\<close>

theorem targetKey_roundtrip:
  assumes "matchesAccountId a" and "CHR '':'' \<notin> set t"
  shows "parseIrcTargetKey (buildIrcTargetKey (Some a) t) =
         (if t \<noteq> [] \<and> \<not> list_ex isLineTerminator t
          then Some \<lparr>accountId = a, target = toLowerCase t\<rparr> else None)"
  using assms(1)
  by (intro parse_build) (auto simp: matchesAccountId_def matchesAccountId_no_colon)

theorem targetKey_roundtrip_witness:
  "matchesAccountId ''libera-1'' \<and> CHR '':'' \<notin> set ''#OpenClaw'' \<and>
   parseIrcTargetKey (buildIrcTargetKey (Some ''libera-1'') ''#OpenClaw'') =
     Some \<lparr>accountId = ''libera-1'', target = ''#openclaw''\<rparr> \<and>
   CHR '':'' \<notin> set [CHR ''A'', CHR 0x0D, CHR ''b''] \<and>
   parseIrcTargetKey (buildIrcTargetKey (Some ''libera-1'') [CHR ''A'', CHR 0x0D, CHR ''b'']) = None \<and>
   parseIrcTargetKey (buildIrcTargetKey (Some ''libera-1'') []) = None"
  using targetKey_roundtrip [of "''libera-1''" "''#OpenClaw''"]
    targetKey_roundtrip [of "''libera-1''" "[CHR ''A'', CHR 0x0D, CHR ''b'']"]
    targetKey_roundtrip [of "''libera-1''" "[]"]
  by (simp add: matchesAccountId_def isAsciiLower_def isAsciiDigit_def isLineTerminator_def
      codeUnit_def toLowerCase_def lowerChar_def isUpperCase_def)

text \<open>
  The claim as written fails at the empty target and at a target holding a line feed:
  both contain no colon, and both keys decode to null.
\<close>

theorem targetKey_roundtrip_counterexample:
  "matchesAccountId ''libera'' \<and> CHR '':'' \<notin> set '''' \<and>
   parseIrcTargetKey (buildIrcTargetKey (Some ''libera'') '''') = None \<and>
   CHR '':'' \<notin> set [CHR ''a'', CHR 0x0A, CHR ''b''] \<and>
   parseIrcTargetKey (buildIrcTargetKey (Some ''libera'') [CHR ''a'', CHR 0x0A, CHR ''b'']) = None"
  by (simp add: matchesAccountId_def isAsciiLower_def isAsciiDigit_def codeUnit_def
      parseIrcTargetKey_def buildIrcTargetKey_def exec_def targetKeyRegex_def toLowerCase_def
      lowerChar_def isUpperCase_def extendGroup_def openGroup_def dot_def isLineTerminator_def)

section \<open>Access control: the compiled pattern and the wildcard rule\<close>

lemma replaceStars_Cons:
  "replaceStars (c # p) = (if c = CHR ''*'' then ''.*'' else [c]) @ replaceStars p"
  by (simp add: replaceStars_def)

lemma replaceStars_Nil [simp]: "replaceStars [] = []"
  by (simp add: replaceStars_def)

lemma hd_replaceStars: "p \<noteq> [] \<Longrightarrow> hd (replaceStars p) \<noteq> CHR ''*''"
  by (cases p) (auto simp: replaceStars_Cons)

lemma atomOf_plain: "c \<noteq> CHR ''*'' \<Longrightarrow> \<not> isSyntaxCharacter c \<Longrightarrow> atomOf c = Some (\<lambda>x. x = c)"
  by (auto simp: atomOf_def isSyntaxCharacter_def)

lemma parseAtoms_Cons_One:
  assumes "atomOf c = Some P" and "parseAtoms (replaceStars p) = Some is"
  shows "parseAtoms (c # replaceStars p) = Some (Item P One False # is)"
proof (cases "replaceStars p")
  case Nil
  with assms show ?thesis by simp
next
  case (Cons d cs)
  then have "p \<noteq> []" by auto
  then have "d \<noteq> CHR ''*''" using hd_replaceStars [of p] Cons by simp
  with assms Cons show ?thesis by simp
qed

lemma parseAtoms_replaceStars:
  "dottedWildcard p \<Longrightarrow> parseAtoms (replaceStars p) = Some (map globItem p)"
proof (induction p)
  case Nil
  then show ?case by simp
next
  case (Cons c p)
  then have IH: "parseAtoms (replaceStars p) = Some (map globItem p)"
    by (simp add: dottedWildcard_def)
  consider "c = CHR ''*''" | "c = CHR ''.''" | "c \<noteq> CHR ''*''" "c \<noteq> CHR ''.''" by blast
  then show ?case
  proof cases
    case 1
    then show ?thesis using IH by (simp add: replaceStars_Cons atomOf_def globItem_def)
  next
    case 2
    then have "atomOf c = Some dot" by (simp add: atomOf_def)
    from parseAtoms_Cons_One [OF this IH] 2 show ?thesis
      by (simp add: replaceStars_Cons globItem_def)
  next
    case 3
    with Cons.prems have "atomOf c = Some (\<lambda>x. x = c)"
      by (simp add: dottedWildcard_def atomOf_plain)
    from parseAtoms_Cons_One [OF this IH] 3 show ?thesis
      by (simp add: replaceStars_Cons globItem_def)
  qed
qed

lemma RegExp_glob:
  "dottedWildcard p \<Longrightarrow>
   RegExp (CHR ''^'' # replaceStars p @ ''$'') =
     Some \<lparr>items = map globItem p, anchoredEnd = True\<rparr>"
  by (simp add: RegExp_def parseAtoms_replaceStars)

lemma plainWildcard_dotted: "plainWildcard p \<Longrightarrow> dottedWildcard p"
  by (auto simp: plainWildcard_def dottedWildcard_def list_all_iff)

lemma plainWildcard_Cons:
  "plainWildcard (c # p) \<Longrightarrow> c \<noteq> CHR ''.'' \<and> plainWildcard p"
  by (auto simp: plainWildcard_def isSyntaxCharacter_def)

lemma rexec_glob:
  "\<not> list_ex isLineTerminator s \<Longrightarrow> plainWildcard p \<Longrightarrow>
   (rexec (map globItem p) True s \<noteq> None) = wildcardMatch p s"
proof (induction p s rule: wildcardMatch.induct)
  case (1 s)
  then show ?case by simp
next
  case (2 p ps)
  then show ?case
    using plainWildcard_Cons [of p ps] by (simp add: globItem_def openGroup_def)
next
  case (3 p ps c cs)
  from "3.prems" have pw: "p \<noteq> CHR ''.''" "plainWildcard ps"
    using plainWildcard_Cons [of p ps] by simp_all
  show ?case
  proof (cases "p = CHR ''*''")
    case True
    let ?is = "map globItem ps"
    have m: "map globItem (p # ps) = Item dot Star False # ?is"
      by (simp add: True globItem_def)
    from 3 True have d: "dot c" by (simp add: dot_def)
    from 3 True pw have a: "(rexec ?is True (c # cs) \<noteq> None) = wildcardMatch ps (c # cs)"
      by simp
    from 3 True have b:
      "(rexec (Item dot Star False # ?is) True cs \<noteq> None) = wildcardMatch (p # ps) cs"
      unfolding m [symmetric] by simp
    show ?thesis unfolding m using True a b d
      by (cases "rexec (Item dot Star False # ?is) True cs")
         (auto simp: openGroup_def extendGroup_def)
  next
    case False
    have m: "map globItem (p # ps) = Item (\<lambda>x. x = p) One False # map globItem ps"
      using False pw by (simp add: globItem_def)
    from 3 False pw show ?thesis unfolding m
      by (auto simp: openGroup_def extendGroup_def)
  qed
qed

text \<open>With dots in the pattern the compiled expression still accepts what the rule accepts.\<close>

lemma rexec_glob_dotted:
  "\<not> list_ex isLineTerminator s \<Longrightarrow> wildcardMatch p s \<Longrightarrow>
   rexec (map globItem p) True s \<noteq> None"
proof (induction p s rule: wildcardMatch.induct)
  case (1 s)
  then show ?case by simp
next
  case (2 p ps)
  then show ?case by (simp add: globItem_def openGroup_def)
next
  case (3 p ps c cs)
  from "3.prems" have d: "dot c" by (simp add: dot_def)
  show ?case
  proof (cases "p = CHR ''*''")
    case True
    let ?is = "map globItem ps"
    have m: "map globItem (p # ps) = Item dot Star False # ?is"
      by (simp add: True globItem_def)
    from 3 True have a: "wildcardMatch ps (c # cs) \<Longrightarrow> rexec ?is True (c # cs) \<noteq> None"
      by simp
    from 3 True have b:
      "wildcardMatch (p # ps) cs \<Longrightarrow> rexec (Item dot Star False # ?is) True cs \<noteq> None"
      unfolding m [symmetric] by simp
    from "3.prems" True have "wildcardMatch ps (c # cs) \<or> wildcardMatch (p # ps) cs"
      by simp
    then show ?thesis unfolding m using a b d
      by (cases "rexec (Item dot Star False # ?is) True cs")
         (auto simp: openGroup_def extendGroup_def)
  next
    case False
    with 3 d show ?thesis
      by (auto simp: globItem_def openGroup_def extendGroup_def)
  qed
qed

lemma test_glob:
  "\<not> list_ex isLineTerminator s \<Longrightarrow> plainWildcard p \<Longrightarrow>
   test \<lparr>items = map globItem p, anchoredEnd = True\<rparr> s = wildcardMatch p s"
  using rexec_glob [of s p] by (simp add: test_def exec_def)

lemma test_glob_dotted:
  "\<not> list_ex isLineTerminator s \<Longrightarrow> wildcardMatch p s \<Longrightarrow>
   test \<lparr>items = map globItem p, anchoredEnd = True\<rparr> s"
  using rexec_glob_dotted [of s p] by (simp add: test_def exec_def)

lemma wildcardMatch_no_star: "CHR ''*'' \<notin> set p \<Longrightarrow> wildcardMatch p s = (s = p)"
  by (induction p s rule: wildcardMatch.induct) auto

lemma hostEntryMatches_plain:
  assumes "CHR ''*'' \<in> set (toLowerCase u) \<longrightarrow> plainWildcard (toLowerCase u)"
    and "\<not> list_ex isLineTerminator h"
  shows "hostEntryMatches h u = Some (wildcardMatch (toLowerCase u) h)"
  using assms
  by (auto simp: hostEntryMatches_def Let_def RegExp_glob plainWildcard_dotted test_glob
        wildcardMatch_no_star)

lemma hostEntryMatches_dotted:
  assumes "CHR ''*'' \<in> set (toLowerCase u) \<longrightarrow> dottedWildcard (toLowerCase u)"
    and "\<not> list_ex isLineTerminator h"
  shows "\<exists>b. hostEntryMatches h u = Some b \<and> (wildcardMatch (toLowerCase u) h \<longrightarrow> b)"
  using assms
  by (auto simp: hostEntryMatches_def Let_def RegExp_glob test_glob_dotted wildcardMatch_no_star)

lemma someEntry_total:
  "\<forall>u\<in>set us. f u = Some (g u) \<Longrightarrow> someEntry f us = Some (list_ex g us)"
  by (induction us) (auto split: bool.splits)

lemma someEntry_sound:
  assumes "\<forall>u\<in>set us. \<exists>b. f u = Some b \<and> (g u \<longrightarrow> b)" and "list_ex g us"
  shows "someEntry f us = Some True"
  using assms
proof (induction us)
  case Nil
  then show ?case by simp
next
  case (Cons u us)
  then obtain b where b: "f u = Some b" "g u \<longrightarrow> b" by auto
  show ?case
  proof (cases b)
    case True
    with b show ?thesis by simp
  next
    case False
    with b Cons.prems have "list_ex g us" by simp
    with Cons have "someEntry f us = Some True" by simp
    with b False show ?thesis by simp
  qed
qed

lemma no_LT_toLowerCase: "list_ex isLineTerminator (toLowerCase h) = list_ex isLineTerminator h"
  by (simp add: toLowerCase_def list_ex_iff)

lemma isUserAllowed_plain:
  assumes "users \<noteq> []"
    and "list_all (\<lambda>u. CHR ''*'' \<in> set (toLowerCase u) \<longrightarrow> plainWildcard (toLowerCase u)) users"
    and "\<not> list_ex isLineTerminator hostname"
  shows "isUserAllowed sender hostname (Some users) =
         Some (nickListed sender users \<or> (hostname \<noteq> [] \<and> hostListed hostname users))"
proof -
  have "someEntry (hostEntryMatches (toLowerCase hostname)) users =
        Some (list_ex (\<lambda>u. wildcardMatch (toLowerCase u) (toLowerCase hostname)) users)"
    using assms
    by (intro someEntry_total ballI hostEntryMatches_plain)
       (auto simp: no_LT_toLowerCase list_all_iff)
  then show ?thesis using assms(1)
    by (auto simp: isUserAllowed_def nickListed_def hostListed_def)
qed

lemma isUserAllowed_dotted:
  assumes "users \<noteq> []"
    and "list_all (\<lambda>u. CHR ''*'' \<in> set (toLowerCase u) \<longrightarrow> dottedWildcard (toLowerCase u)) users"
    and "\<not> list_ex isLineTerminator hostname"
    and "nickListed sender users \<or> (hostname \<noteq> [] \<and> hostListed hostname users)"
  shows "isUserAllowed sender hostname (Some users) = Some True"
proof (cases "nickListed sender users")
  case True
  with assms(1) show ?thesis by (simp add: isUserAllowed_def nickListed_def)
next
  case False
  with assms(4) have h: "hostname \<noteq> []" "hostListed hostname users" by simp_all
  have "someEntry (hostEntryMatches (toLowerCase hostname)) users = Some True"
  proof (rule someEntry_sound)
    show "\<forall>u\<in>set users. \<exists>b. hostEntryMatches (toLowerCase hostname) u = Some b \<and>
            (wildcardMatch (toLowerCase u) (toLowerCase hostname) \<longrightarrow> b)"
      using assms(2,3)
      by (intro ballI hostEntryMatches_dotted) (auto simp: no_LT_toLowerCase list_all_iff)
    show "list_ex (\<lambda>u. wildcardMatch (toLowerCase u) (toLowerCase hostname)) users"
      using h by (simp add: hostListed_def)
  qed
  with assms(1) h show ?thesis by (simp add: isUserAllowed_def)
qed

text \<open>
  C4, as the code has it. With no allowlist or an empty one every sender is allowed. With
  a non-empty allowlist whose wildcard entries hold no metacharacter of regular
  expressions but the star, and a hostname without line terminators, the sender is
  allowed iff the nick equals some entry case-insensitively, or the hostname is not
  empty and, lower-cased, matches some lower-cased entry under the wildcard rule
  (a star matches any run, every other character only itself, the whole hostname). Where
  wildcard entries also hold dots, whoever the rule allows is allowed.
\<close>

theorem isUserAllowed_wildcard_rule:
  "isUserAllowed sender hostname None = Some True \<and>
   isUserAllowed sender hostname (Some []) = Some True \<and>
   (users \<noteq> [] \<and> \<not> list_ex isLineTerminator hostname \<and> plainEntries users \<longrightarrow>
      isUserAllowed sender hostname (Some users) =
        Some (nickListed sender users \<or> (hostname \<noteq> [] \<and> hostListed hostname users))) \<and>
   (users \<noteq> [] \<and> \<not> list_ex isLineTerminator hostname \<and> dottedEntries users \<and>
      (nickListed sender users \<or> (hostname \<noteq> [] \<and> hostListed hostname users)) \<longrightarrow>
      isUserAllowed sender hostname (Some users) = Some True)"
  using isUserAllowed_plain [of users hostname sender] isUserAllowed_dotted [of users hostname sender]
  by (simp add: isUserAllowed_def plainEntries_def dottedEntries_def)

theorem isUserAllowed_wildcard_rule_witness:
  "isUserAllowed ''Bob'' ''Bob!b@Trusted'' (Some [''*!*@trusted'', ''alice'']) = Some True \<and>
   isUserAllowed ''bob'' ''bob!b@other'' (Some [''*!*@trusted'', ''alice'']) = Some False \<and>
   isUserAllowed ''ALICE'' ''alice!a@other'' (Some [''*!*@trusted'', ''alice'']) = Some True \<and>
   isUserAllowed ''bob'' ''bob@example.com'' (Some [''*@example.com'']) = Some True"
  using isUserAllowed_wildcard_rule [of "''Bob''" "''Bob!b@Trusted''" "[''*!*@trusted'', ''alice'']"]
    isUserAllowed_wildcard_rule [of "''bob''" "''bob!b@other''" "[''*!*@trusted'', ''alice'']"]
    isUserAllowed_wildcard_rule [of "''ALICE''" "''alice!a@other''" "[''*!*@trusted'', ''alice'']"]
    isUserAllowed_wildcard_rule [of "''bob''" "''bob@example.com''" "[''*@example.com'']"]
  by (simp add: plainEntries_def dottedEntries_def plainWildcard_def dottedWildcard_def
      isSyntaxCharacter_def nickListed_def hostListed_def toLowerCase_def lowerChar_def
      isUpperCase_def codeUnit_def isLineTerminator_def)

text \<open>
  The claim as written fails at the empty hostname: the rule lets the bare star match
  it, the code looks at hostname patterns only when the hostname is not empty.
\<close>

theorem isUserAllowed_wildcard_rule_counterexample:
  "isAllowedSpec ''bob'' [] [''*''] \<and> isUserAllowed ''bob'' [] (Some [''*'']) = Some False"
  by (simp add: isUserAllowed_def isAllowedSpec_def toLowerCase_def lowerChar_def
      isUpperCase_def codeUnit_def)

text \<open>
  The other metacharacters of an entry are compiled as they stand: the dot of a host
  name in a wildcard entry matches any character.
\<close>

lemma isUserAllowed_dot_matches_any:
  "\<not> isAllowedSpec ''bob'' ''bob@exampleXcom'' [''*@example.com''] \<and>
   isUserAllowed ''bob'' ''bob@exampleXcom'' (Some [''*@example.com'']) = Some True"
  by (simp add: isUserAllowed_def isAllowedSpec_def toLowerCase_def lowerChar_def isUpperCase_def
      codeUnit_def hostEntryMatches_def RegExp_def replaceStars_def atomOf_def
      isSyntaxCharacter_def test_def exec_def dot_def isLineTerminator_def openGroup_def
      extendGroup_def)

text \<open>
  C10. For every nick and every non-empty allowlist, the empty hostname is allowed iff
  some entry equals the nick case-insensitively: no entry is compiled or compared with
  the hostname, so that no pattern, the bare star included, grants access.
\<close>

theorem isUserAllowed_empty_hostname:
  "users \<noteq> [] \<Longrightarrow>
   isUserAllowed sender [] (Some users) =
     Some (list_ex (\<lambda>u. toLowerCase u = toLowerCase sender) users)"
  by (simp add: isUserAllowed_def)

theorem isUserAllowed_empty_hostname_witness:
  "[''*'', ''Alice''] \<noteq> [] \<and>
   isUserAllowed ''bob'' [] (Some [''*'', ''Alice'']) = Some False \<and>
   isUserAllowed ''ALICE'' [] (Some [''*'', ''Alice'']) = Some True"
  using isUserAllowed_empty_hostname [of "[''*'', ''Alice'']" "''bob''"]
    isUserAllowed_empty_hostname [of "[''*'', ''Alice'']" "''ALICE''"]
  by (simp add: toLowerCase_def lowerChar_def isUpperCase_def codeUnit_def)

section \<open>Normalising a messaging target: which inputs are accepted\<close>

lemma rexec_Star_only:
  "rexec [Item P Star False] True s = (if list_all P s then Some [] else None)"
  by (induction s) (auto simp: openGroup_def extendGroup_def)

lemma test_nickRegex: "test nickRegex s = isNick s"
  by (cases s) (auto simp: test_def exec_def nickRegex_def isNick_def rexec_Star_only
        openGroup_def extendGroup_def)

lemma rexec_lit_Some:
  "rexec (lit c # is) e s = Some gs \<Longrightarrow> \<exists>xs. s = c # xs \<and> rexec is e xs = Some gs"
  by (cases s) (auto split: if_splits)

lemma test_prefixed_take:
  assumes "test prefixedKeyRegex s"
  shows "take 4 s = ''irc:''"
proof -
  from assms obtain gs where "rexec (items prefixedKeyRegex) False s = Some gs"
    by (auto simp: test_def exec_def prefixedKeyRegex_def)
  then obtain xs where "s = CHR ''i'' # CHR ''r'' # CHR ''c'' # CHR '':'' # xs"
    unfolding prefixedKeyRegex_def
    by (auto dest!: rexec_lit_Some)
  then show ?thesis by simp
qed

lemma rexec_Star_open: "rexec [Item P Star cap] False s \<noteq> None"
  by (induction s) (auto simp: openGroup_def)

lemma test_prefixed_intro:
  assumes "a \<noteq> []" and "CHR '':'' \<notin> set a" and "r \<noteq> []" and "\<not> isLineTerminator (hd r)"
  shows "test prefixedKeyRegex (''irc:'' @ a @ '':'' @ r)"
proof -
  from assms obtain c cs where r: "r = c # cs" and c: "dot c"
    by (cases r) (auto simp: dot_def)
  obtain g0 where "rexec [Item dot Star False] False cs = Some g0"
    using rexec_Star_open [of dot False cs] by auto
  then have "rexec [Item dot Plus False] False r = Some (extendGroup False c g0)"
    using r c by simp
  then have "rexec [lit CHR '':'', Item dot Plus False] False (CHR '':'' # r) = Some g0"
    by (simp add: extendGroup_def)
  then have "rexec [Item (\<lambda>c. c \<noteq> CHR '':'') Plus False, lit CHR '':'', Item dot Plus False]
               False (a @ (CHR '':'' # r)) = Some (if False then a # g0 else g0)"
    using assms by (intro rexec_Plus_run) auto
  then show ?thesis
    by (simp add: test_def exec_def prefixedKeyRegex_def)
qed

lemma test_prefixed_iff:
  "test prefixedKeyRegex s = (take 4 s = ''irc:'' \<and> hasKeyBody (drop 4 s))"
proof (cases "take 4 s = ''irc:''")
  case False
  then show ?thesis using test_prefixed_take [of s] by auto
next
  case True
  then obtain rest where s: "s = ''irc:'' @ rest"
    by (metis append_take_drop_id)
  let ?nc = "\<lambda>c. c \<noteq> CHR '':''"
  have nc: "\<not> ?nc (CHR '':'')" by simp
  note L = rexec_Plus_then_lit [of ?nc "CHR '':''", OF nc]
  have body:
    "(rexec [Item ?nc Plus False, lit CHR '':'', Item dot Plus False] False rest \<noteq> None) =
     hasKeyBody rest"
  proof (cases "dropWhile ?nc rest")
    case Nil
    show ?thesis unfolding L hasKeyBody_def Nil by simp
  next
    case (Cons colon tgt)
    then have c: "colon = CHR '':''" using hd_dropWhile [of ?nc rest] by force
    show ?thesis
    proof (cases tgt)
      case Nil
      show ?thesis unfolding L hasKeyBody_def Cons Nil c by simp
    next
      case (Cons x xs)
      have "rexec [Item dot Star False] False xs \<noteq> None" by (rule rexec_Star_open)
      then obtain g where g: "rexec [Item dot Star False] False xs = Some g" by auto
      show ?thesis
        unfolding L hasKeyBody_def \<open>dropWhile ?nc rest = colon # tgt\<close> Cons c
        using g by (simp add: dot_def)
    qed
  qed
  show ?thesis using body True s by (simp add: test_def exec_def prefixedKeyRegex_def)
qed

lemma isNickChar_not_colon: "isNickChar c \<Longrightarrow> c \<noteq> CHR '':''"
  by (auto simp: isNickChar_def isNickStart_def isAsciiLower_def isAsciiUpper_def
        isAsciiDigit_def codeUnit_def)

lemma isNickChar_not_space: "isNickChar c \<Longrightarrow> \<not> isWhiteSpace c"
  by (auto simp: isNickChar_def isNickStart_def isAsciiLower_def isAsciiUpper_def
        isAsciiDigit_def isWhiteSpace_def codeUnit_def)

lemma isNick_chars: "isNick s \<Longrightarrow> list_all isNickChar s"
  by (cases s) (auto simp: isNick_def isNickChar_def)

lemma isNick_not_prefixed: "isNick s \<Longrightarrow> \<not> test prefixedKeyRegex s"
proof
  assume n: "isNick s" and t: "test prefixedKeyRegex s"
  from t have "take 4 s = ''irc:''" by (rule test_prefixed_take)
  then have "CHR '':'' \<in> set (take 4 s)" by simp
  then have "CHR '':'' \<in> set s" by (rule in_set_takeD)
  with isNick_chars [OF n] show False
    by (auto simp: list_all_iff dest: isNickChar_not_colon)
qed

lemma hash_not_prefixed: "startsWith s ''#'' \<Longrightarrow> \<not> test prefixedKeyRegex s"
  by (auto dest!: test_prefixed_take simp: startsWith_def) (cases s; simp)

lemma isNick_no_space: "isNick s \<Longrightarrow> \<not> list_ex isWhiteSpace s"
  using isNick_chars [of s] by (auto simp: list_all_iff list_ex_iff dest: isNickChar_not_space)

lemma isNick_no_hash: "isNick s \<Longrightarrow> \<not> startsWith s ''#''"
  by (cases s)
     (auto simp: isNick_def startsWith_def isNickStart_def isAsciiLower_def isAsciiUpper_def
        codeUnit_def)

text \<open>
  C6, as the code has it. The input is trimmed first. The empty rest gives undefined. A
  rest that starts with \<^verbatim>\<open>irc:\<close> in lower case and goes on with a non-empty id
  without colon, a colon and a target that does not start with a line terminator is
  accepted and returned lower-cased. A rest that starts with \<^verbatim>\<open>#\<close> is accepted
  whatever follows, white space included, and a bare nick is accepted; both give
  \<^verbatim>\<open>irc:default:\<close> and the lower-cased rest. Every other rest gives undefined,
  unless it has the shape of a key with a prefix that is not in lower case, of which
  nothing is said; so does every rest with white space inside that neither starts with
  \<^verbatim>\<open>#\<close> nor has the shape of a key.
\<close>

theorem normalize_cases:
  "(trim raw = [] \<longrightarrow> normalizeIrcMessagingTarget raw = None) \<and>
   (take 4 (trim raw) = ''irc:'' \<and> hasKeyBody (drop 4 (trim raw)) \<longrightarrow>
      normalizeIrcMessagingTarget raw = Some (toLowerCase (trim raw))) \<and>
   (startsWith (trim raw) ''#'' \<longrightarrow>
      normalizeIrcMessagingTarget raw = Some (''irc:default:'' @ toLowerCase (trim raw))) \<and>
   (isNick (trim raw) \<longrightarrow>
      normalizeIrcMessagingTarget raw = Some (''irc:default:'' @ toLowerCase (trim raw))) \<and>
   (\<not> startsWith (trim raw) ''#'' \<and> \<not> isNick (trim raw) \<and>
      \<not> (toLowerCase (take 4 (trim raw)) = ''irc:'' \<and> hasKeyBody (drop 4 (trim raw))) \<longrightarrow>
      normalizeIrcMessagingTarget raw = None) \<and>
   (list_ex isWhiteSpace (trim raw) \<and> \<not> startsWith (trim raw) ''#'' \<and>
      \<not> (toLowerCase (take 4 (trim raw)) = ''irc:'' \<and> hasKeyBody (drop 4 (trim raw))) \<longrightarrow>
      normalizeIrcMessagingTarget raw = None)"
proof -
  have lower: "toLowerCase (take 4 (trim raw)) = ''irc:''" if "take 4 (trim raw) = ''irc:''"
    using that by (simp add: toLowerCase_def lowerChar_def isUpperCase_def codeUnit_def)
  have none: "normalizeIrcMessagingTarget raw = None"
    if "\<not> startsWith (trim raw) ''#''" and "\<not> isNick (trim raw)"
      and "\<not> (toLowerCase (take 4 (trim raw)) = ''irc:'' \<and> hasKeyBody (drop 4 (trim raw)))"
  proof -
    from that(3) lower have "\<not> test prefixedKeyRegex (trim raw)"
      by (auto simp: test_prefixed_iff)
    with that(1,2) show ?thesis
      by (simp add: normalizeIrcMessagingTarget_def Let_def test_nickRegex)
  qed
  show ?thesis
  proof (intro conjI impI)
    assume "trim raw = []"
    then show "normalizeIrcMessagingTarget raw = None"
      by (simp add: normalizeIrcMessagingTarget_def)
  next
    assume h: "take 4 (trim raw) = ''irc:'' \<and> hasKeyBody (drop 4 (trim raw))"
    then have "test prefixedKeyRegex (trim raw)" by (simp add: test_prefixed_iff)
    moreover from h have "trim raw \<noteq> []" by auto
    ultimately show "normalizeIrcMessagingTarget raw = Some (toLowerCase (trim raw))"
      by (simp add: normalizeIrcMessagingTarget_def)
  next
    assume h: "startsWith (trim raw) ''#''"
    then have "trim raw \<noteq> []" by (auto simp: startsWith_def)
    with h hash_not_prefixed [OF h]
    show "normalizeIrcMessagingTarget raw = Some (''irc:default:'' @ toLowerCase (trim raw))"
      by (simp add: normalizeIrcMessagingTarget_def buildIrcTargetKey_def)
  next
    assume h: "isNick (trim raw)"
    then have "trim raw \<noteq> []" by (auto simp: isNick_def)
    with h isNick_not_prefixed [OF h] isNick_no_hash [OF h]
    show "normalizeIrcMessagingTarget raw = Some (''irc:default:'' @ toLowerCase (trim raw))"
      by (simp add: normalizeIrcMessagingTarget_def buildIrcTargetKey_def test_nickRegex)
  next
    assume "\<not> startsWith (trim raw) ''#'' \<and> \<not> isNick (trim raw) \<and>
      \<not> (toLowerCase (take 4 (trim raw)) = ''irc:'' \<and> hasKeyBody (drop 4 (trim raw)))"
    then show "normalizeIrcMessagingTarget raw = None" using none by blast
  next
    assume "list_ex isWhiteSpace (trim raw) \<and> \<not> startsWith (trim raw) ''#'' \<and>
      \<not> (toLowerCase (take 4 (trim raw)) = ''irc:'' \<and> hasKeyBody (drop 4 (trim raw)))"
    then show "normalizeIrcMessagingTarget raw = None"
      using none isNick_no_space by blast
  qed
qed

theorem normalize_cases_witness:
  "normalizeIrcMessagingTarget '' irc:Libera:#Chan '' = Some ''irc:libera:#chan'' \<and>
   normalizeIrcMessagingTarget ''#General'' = Some ''irc:default:#general'' \<and>
   normalizeIrcMessagingTarget ''Bob_1'' = Some ''irc:default:bob_1'' \<and>
   normalizeIrcMessagingTarget ''not a target'' = None \<and>
   normalizeIrcMessagingTarget ''  '' = None \<and>
   normalizeIrcMessagingTarget ''irc:x'' = None \<and>
   normalizeIrcMessagingTarget ''irc::x'' = None \<and>
   normalizeIrcMessagingTarget ''irc:a:'' = None \<and>
   normalizeIrcMessagingTarget ''IRC:x'' = None"
  using normalize_cases [of "'' irc:Libera:#Chan ''"]
    normalize_cases [of "''#General''"]
    normalize_cases [of "''Bob_1''"]
    normalize_cases [of "''not a target''"]
    normalize_cases [of "''  ''"]
    normalize_cases [of "''irc:x''"]
    normalize_cases [of "''irc::x''"]
    normalize_cases [of "''irc:a:''"]
    normalize_cases [of "''IRC:x''"]
  by (simp add: trim_def trimStart_def trimEnd_def isWhiteSpace_def codeUnit_def startsWith_def
      isNick_def isNickStart_def isNickChar_def isAsciiLower_def isAsciiUpper_def
      isAsciiDigit_def toLowerCase_def lowerChar_def isUpperCase_def isLineTerminator_def
      hasKeyBody_def)

text \<open>
  The claim as written fails at a channel name with a space inside: the input contains
  white space and is accepted.
\<close>

theorem normalize_cases_counterexample:
  "list_ex isWhiteSpace ''#a b'' \<and>
   normalizeIrcMessagingTarget ''#a b'' = Some ''irc:default:#a b''"
  by (simp add: normalizeIrcMessagingTarget_def trim_def trimStart_def trimEnd_def
      isWhiteSpace_def codeUnit_def test_def exec_def prefixedKeyRegex_def startsWith_def
      buildIrcTargetKey_def toLowerCase_def lowerChar_def isUpperCase_def)

text \<open>The prefix is compared as it stands: in upper case it is not recognised.\<close>

lemma normalize_upper_case_prefix:
  "normalizeIrcMessagingTarget ''IRC:libera:#chan'' = None"
  by (simp add: normalizeIrcMessagingTarget_def trim_def trimStart_def trimEnd_def
      isWhiteSpace_def codeUnit_def test_def exec_def prefixedKeyRegex_def nickRegex_def
      startsWith_def isNickStart_def isNickChar_def isAsciiLower_def isAsciiUpper_def
      isAsciiDigit_def extendGroup_def openGroup_def)

section \<open>The send loop and the cuts\<close>

lemma call_ok: "client c = Some calls \<Longrightarrow> call k c = Inr (c\<lparr>client := Some (calls @ [k])\<rparr>)"
  by (simp add: call_def)

lemma emit_ok:
  "client c = Some calls \<Longrightarrow>
   emit opts tgt m c = Inr (c\<lparr>client := Some (calls @ [kindOf opts tgt m])\<rparr>)"
  by (simp add: emit_def kindOf_def say_def notice_def action_def call_def)

lemma sendChunksFrom_ok:
  "client c = Some calls \<Longrightarrow> i \<le> length chunks \<Longrightarrow>
   sendChunksFrom opts tgt chunks i c =
     Inr (c\<lparr>client := Some (calls @ map (kindOf opts tgt)
                                   (drop i (messagesOf (splitPrefix opts) chunks)))\<rparr>)"
proof (induction opts tgt chunks i c arbitrary: calls rule: sendChunksFrom.induct)
  case (1 opts tgt chunks i c)
  show ?case
  proof (cases "i < length chunks")
    case True
    let ?m = "chunkMessage (splitPrefix opts) (length chunks) i (chunks ! i)"
    let ?c' = "c\<lparr>client := Some (calls @ [kindOf opts tgt ?m])\<rparr>"
    have e: "emit opts tgt ?m c = Inr ?c'" using "1.prems" by (simp add: emit_ok)
    have c': "client ?c' = Some (calls @ [kindOf opts tgt ?m])" by simp
    have "sendChunksFrom opts tgt chunks (Suc i) ?c' =
          Inr (?c'\<lparr>client := Some ((calls @ [kindOf opts tgt ?m]) @ map (kindOf opts tgt)
                                   (drop (Suc i) (messagesOf (splitPrefix opts) chunks)))\<rparr>)"
      using True by (intro "1.IH" [OF True e c']) simp
    moreover have "drop i (messagesOf (splitPrefix opts) chunks) =
                   ?m # drop (Suc i) (messagesOf (splitPrefix opts) chunks)"
      using True by (simp add: messagesOf_def Cons_nth_drop_Suc [symmetric])
    ultimately show ?thesis
      using True e by (subst sendChunksFrom.simps) simp
  next
    case False
    with "1.prems" show ?thesis
      by (subst sendChunksFrom.simps) (simp add: messagesOf_def)
  qed
qed

lemma sendMessageIrc_ok:
  assumes "connected c" and "client c = Some calls"
  shows "sendMessageIrc c tgt text opts =
         Inr (c\<lparr>client := Some (calls @ map (kindOf opts tgt) (outgoing opts text))\<rparr>)"
  using assms sendChunksFrom_ok [of c calls 0 "splitChunks text" opts tgt]
  by (auto simp: sendMessageIrc_def isConnected_def outgoing_def emit_ok)

lemma lastIndexOf_found:
  assumes "lastIndexOf s c p \<noteq> - 1"
  shows "\<exists>k. lastIndexOf s c p = int k \<and> k \<le> p \<and> k < length s \<and> s ! k = c"
proof -
  let ?t = "take (Suc p) s"
  let ?r = "dropWhile (\<lambda>x. x \<noteq> c) (rev ?t)"
  from assms have r: "?r \<noteq> []" by (auto simp: lastIndexOf_def Let_def split: if_splits)
  then have v: "lastIndexOf s c p = int (length ?r - 1)"
    by (cases ?r) (auto simp: lastIndexOf_def Let_def)
  have hd: "hd ?r = c" using r hd_dropWhile [of "\<lambda>x. x \<noteq> c" "rev ?t"] by auto
  have "rev ?t = takeWhile (\<lambda>x. x \<noteq> c) (rev ?t) @ ?r" by simp
  then have "?t = rev ?r @ rev (takeWhile (\<lambda>x. x \<noteq> c) (rev ?t))"
    by (metis rev_append rev_rev_ident)
  then have t: "?t ! (length ?r - 1) = rev ?r ! (length ?r - 1)"
    using r by (metis diff_less length_greater_0_conv length_rev nth_append zero_less_one)
  have "rev ?r ! (length ?r - 1) = c"
    using r hd by (simp add: rev_nth hd_conv_nth)
  moreover have len: "length ?r \<le> length ?t"
    using length_dropWhile_le [of "\<lambda>x. x \<noteq> c" "rev ?t"] by simp
  moreover from r len have lt: "length ?r - 1 < length ?t"
    by (cases ?r) auto
  ultimately have "s ! (length ?r - 1) = c" using t by simp
  moreover from lt have "length ?r - 1 \<le> p" "length ?r - 1 < length s" by auto
  ultimately show ?thesis using v by blast
qed

lemma lastIndexOf_ge: "- 1 \<le> lastIndexOf s c p"
  by (simp add: lastIndexOf_def Let_def)

lemma lastIndexOf_cases:
  "lastIndexOf s c p = - 1 \<or> (\<exists>k. lastIndexOf s c p = int k \<and> k \<le> p \<and> k < length s \<and> s ! k = c)"
  using lastIndexOf_found by blast

text \<open>A character is not found where it does not occur.\<close>

lemma lastIndexOf_absent: "c \<notin> set s \<Longrightarrow> lastIndexOf s c p = - 1"
proof -
  assume "c \<notin> set s"
  then have "\<forall>x\<in>set (rev (take (Suc p) s)). x \<noteq> c" by (auto dest: in_set_takeD)
  then have "dropWhile (\<lambda>x. x \<noteq> c) (rev (take (Suc p) s)) = []" by (simp del: set_rev)
  then show ?thesis by (simp add: lastIndexOf_def)
qed

lemma splitIndexOf_cases:
  "splitIndexOf s = MAX_LENGTH \<or>
   (\<exists>k. splitIndexOf s = Suc k \<and> 300 < k \<and> k \<le> MAX_LENGTH \<and> k < length s \<and>
        (s ! k = CHR 0x0A \<or> (350 < k \<and> (s ! k = CHR '' '' \<or> isPunctuation (s ! k)))))"
proof -
  let ?nl = "lastIndexOf s (CHR 0x0A) MAX_LENGTH"
  let ?sp = "lastIndexOf s (CHR '' '') MAX_LENGTH"
  let ?p1 = "lastIndexOf s (CHR ''.'') MAX_LENGTH"
  let ?p2 = "lastIndexOf s (CHR '','') MAX_LENGTH"
  let ?p3 = "lastIndexOf s (CHR '';'') MAX_LENGTH"
  let ?p4 = "lastIndexOf s (CHR ''!'') MAX_LENGTH"
  let ?p5 = "lastIndexOf s (CHR ''?'') MAX_LENGTH"
  let ?pm = "max ?p1 (max ?p2 (max ?p3 (max ?p4 ?p5)))"
  show ?thesis
  proof (cases "?nl > int MAX_LENGTH - 100")
    case True
    then have "?nl \<noteq> - 1" by (simp add: MAX_LENGTH_def)
    from lastIndexOf_found [OF this] obtain k where
      "?nl = int k" "k \<le> MAX_LENGTH" "k < length s" "s ! k = CHR 0x0A" by blast
    with True show ?thesis by (auto simp: splitIndexOf_def Let_def MAX_LENGTH_def)
  next
    case nl: False
    show ?thesis
    proof (cases "?sp > int MAX_LENGTH - 50")
      case True
      then have "?sp \<noteq> - 1" by (simp add: MAX_LENGTH_def)
      from lastIndexOf_found [OF this] obtain k where
        "?sp = int k" "k \<le> MAX_LENGTH" "k < length s" "s ! k = CHR '' ''" by blast
      with True nl show ?thesis by (auto simp: splitIndexOf_def Let_def MAX_LENGTH_def)
    next
      case sp: False
      show ?thesis
      proof (cases "?pm > int MAX_LENGTH - 50")
        case True
        have "?pm = ?p1 \<or> ?pm = ?p2 \<or> ?pm = ?p3 \<or> ?pm = ?p4 \<or> ?pm = ?p5"
          by (auto simp: max_def)
        then obtain c where c: "isPunctuation c" "?pm = lastIndexOf s c MAX_LENGTH"
          by (auto simp: isPunctuation_def)
        with True have "lastIndexOf s c MAX_LENGTH \<noteq> - 1" by (simp add: MAX_LENGTH_def)
        from lastIndexOf_found [OF this] obtain k where
          "lastIndexOf s c MAX_LENGTH = int k" "k \<le> MAX_LENGTH" "k < length s" "s ! k = c" by blast
        with True nl sp c have "splitIndexOf s = Suc k \<and> 350 < k \<and> k \<le> MAX_LENGTH \<and> k < length s \<and> isPunctuation (s ! k)"
          by (simp add: splitIndexOf_def Let_def MAX_LENGTH_def)
        then show ?thesis by auto
      next
        case False
        with nl sp show ?thesis by (simp add: splitIndexOf_def Let_def)
      qed
    qed
  qed
qed

lemma length_trimEnd_le: "length (trimEnd s) \<le> length s"
  unfolding trimEnd_def using length_dropWhile_le [of isWhiteSpace "rev s"] by simp

lemma trimEnd_snoc_white: "isWhiteSpace c \<Longrightarrow> trimEnd (xs @ [c]) = trimEnd xs"
  by (simp add: trimEnd_def)

lemma trimEnd_snoc_other: "\<not> isWhiteSpace c \<Longrightarrow> trimEnd (xs @ [c]) = xs @ [c]"
  by (simp add: trimEnd_def)

lemma isPunctuation_not_white: "isPunctuation c \<Longrightarrow> \<not> isWhiteSpace c"
  by (auto simp: isPunctuation_def isWhiteSpace_def codeUnit_def)

lemma white_newline: "isWhiteSpace (CHR 0x0A)" and white_space: "isWhiteSpace (CHR '' '')"
  by (simp_all add: isWhiteSpace_def codeUnit_def)

lemma chunk_step_budget:
  "chunkWithinBudget (trimEnd (take (splitIndexOf s) s))"
proof -
  from splitIndexOf_cases [of s] consider
    "splitIndexOf s = MAX_LENGTH"
    | k where "splitIndexOf s = Suc k" "k < MAX_LENGTH"
    | "splitIndexOf s = Suc MAX_LENGTH" "MAX_LENGTH < length s"
      "s ! MAX_LENGTH = CHR 0x0A \<or> s ! MAX_LENGTH = CHR '' '' \<or> isPunctuation (s ! MAX_LENGTH)"
    by (metis le_neq_implies_less)
  then show ?thesis
  proof cases
    case 1
    then show ?thesis
      using length_trimEnd_le [of "take MAX_LENGTH s"] by (simp add: chunkWithinBudget_def)
  next
    case 2
    then show ?thesis
      using length_trimEnd_le [of "take (Suc k) s"] by (simp add: chunkWithinBudget_def)
  next
    case 3
    then have t: "take (Suc MAX_LENGTH) s = take MAX_LENGTH s @ [s ! MAX_LENGTH]"
      by (simp add: take_Suc_conv_app_nth)
    show ?thesis
    proof (cases "isPunctuation (s ! MAX_LENGTH)")
      case True
      then have "trimEnd (take (Suc MAX_LENGTH) s) = take MAX_LENGTH s @ [s ! MAX_LENGTH]"
        unfolding t by (intro trimEnd_snoc_other isPunctuation_not_white)
      with 3 True show ?thesis by (simp add: chunkWithinBudget_def)
    next
      case False
      with 3 have "isWhiteSpace (s ! MAX_LENGTH)"
        using white_newline white_space by auto
      then have "trimEnd (take (Suc MAX_LENGTH) s) = trimEnd (take MAX_LENGTH s)"
        unfolding t by (rule trimEnd_snoc_white)
      with 3 show ?thesis
        using length_trimEnd_le [of "take MAX_LENGTH s"] by (simp add: chunkWithinBudget_def)
    qed
  qed
qed

lemma splitChunks_budget: "list_all chunkWithinBudget (splitChunks s)"
proof (induction s rule: splitChunks.induct)
  case (1 s)
  show ?case
  proof (cases "MAX_LENGTH < length s")
    case True
    with 1 show ?thesis
      by (subst splitChunks.simps) (simp add: chunk_step_budget)
  next
    case False
    then show ?thesis
      by (subst splitChunks.simps) (simp add: chunkWithinBudget_def)
  qed
qed

lemma prefix_trimEnd: "prefix (trimEnd s) s"
proof -
  have "suffix (dropWhile isWhiteSpace (rev s)) (rev s)" by (rule suffix_dropWhile)
  then show ?thesis by (simp add: trimEnd_def suffix_to_prefix)
qed

lemma subseq_trimEnd: "subseq (trimEnd s) s"
  using prefix_trimEnd by (rule prefix_imp_subseq)

lemma subseq_trimStart: "subseq (trimStart s) s"
  unfolding trimStart_def by (metis suffix_dropWhile suffix_imp_subseq)

lemma splitChunks_subseq: "subseq (concat (splitChunks s)) s"
proof (induction s rule: splitChunks.induct)
  case (1 s)
  show ?case
  proof (cases "MAX_LENGTH < length s")
    case True
    let ?k = "splitIndexOf s"
    have "subseq (concat (splitChunks (trimStart (drop ?k s)))) (drop ?k s)"
      using 1 True subseq_trimStart [of "drop ?k s"] by (meson subseq_order.order_trans)
    then have "subseq (trimEnd (take ?k s) @ concat (splitChunks (trimStart (drop ?k s))))
                 (take ?k s @ drop ?k s)"
      by (intro list_emb_append_mono subseq_trimEnd)
    with True show ?thesis
      by (subst splitChunks.simps) simp
  next
    case False
    then show ?thesis
      by (subst splitChunks.simps) simp
  qed
qed

lemma splitChunks_long:
  "MAX_LENGTH < length s \<Longrightarrow>
   splitChunks s = trimEnd (take (splitIndexOf s) s) # splitChunks (trimStart (drop (splitIndexOf s) s))"
  by (subst splitChunks.simps) simp

lemma splitChunks_short:
  "length s \<le> MAX_LENGTH \<Longrightarrow> s \<noteq> [] \<Longrightarrow> splitChunks s = [s]"
  by (subst splitChunks.simps) simp

lemma lastIndexOf_at:
  assumes "length xs \<le> p" and "c \<notin> set (take (p - length xs) ys)"
  shows "lastIndexOf (xs @ c # ys) c p = int (length xs)"
proof -
  have "take (Suc p) (xs @ c # ys) = xs @ c # take (p - length xs) ys"
    using assms(1) by (simp add: Suc_diff_le)
  then have "rev (take (Suc p) (xs @ c # ys)) = rev (take (p - length xs) ys) @ c # rev xs"
    by simp
  moreover have "dropWhile (\<lambda>x. x \<noteq> c) (rev (take (p - length xs) ys) @ c # rev xs) = c # rev xs"
    using assms(2) by (subst dropWhile_append2) (auto simp del: set_rev simp: set_rev)
  ultimately show ?thesis by (simp add: lastIndexOf_def)
qed

lemma splitIndexOf_hard:
  assumes "CHR 0x0A \<notin> set s" and "CHR '' '' \<notin> set s" and "\<forall>c\<in>set s. \<not> isPunctuation c"
  shows "splitIndexOf s = MAX_LENGTH" and "hardCut s"
proof -
  have "\<And>c. isPunctuation c \<Longrightarrow> lastIndexOf s c MAX_LENGTH = - 1"
    using assms(3) by (intro lastIndexOf_absent) auto
  then have "lastIndexOf s (CHR ''.'') MAX_LENGTH = - 1" "lastIndexOf s (CHR '','') MAX_LENGTH = - 1"
    "lastIndexOf s (CHR '';'') MAX_LENGTH = - 1" "lastIndexOf s (CHR ''!'') MAX_LENGTH = - 1"
    "lastIndexOf s (CHR ''?'') MAX_LENGTH = - 1"
    by (simp_all add: isPunctuation_def)
  then show "splitIndexOf s = MAX_LENGTH" and "hardCut s"
    using assms(1,2)
    by (simp_all add: splitIndexOf_def hardCut_def Let_def lastIndexOf_absent MAX_LENGTH_def)
qed

lemma splitIndexOf_space:
  assumes "CHR 0x0A \<notin> set s" and "lastIndexOf s (CHR '' '') MAX_LENGTH = int k" and "350 < k"
  shows "splitIndexOf s = Suc k" and "\<not> hardCut s"
  using assms
  by (simp_all add: splitIndexOf_def hardCut_def Let_def lastIndexOf_absent MAX_LENGTH_def)

lemma trimEnd_replicate: "\<not> isWhiteSpace c \<Longrightarrow> trimEnd (replicate n c) = replicate n c"
  by (simp add: trimEnd_def dropWhile_replicate)

lemma trimStart_replicate: "\<not> isWhiteSpace c \<Longrightarrow> trimStart (replicate n c) = replicate n c"
  by (simp add: trimStart_def dropWhile_replicate)

lemma nw_a: "\<not> isWhiteSpace (CHR ''a'')" "\<not> isWhiteSpace (CHR ''b'')" "\<not> isPunctuation (CHR ''a'')"
  by (simp_all add: isWhiteSpace_def codeUnit_def isPunctuation_def)

lemma chunks_1000:
  "splitChunks (replicate 1000 (CHR ''a'')) =
     [replicate 400 (CHR ''a''), replicate 400 (CHR ''a''), replicate 200 (CHR ''a'')]"
proof -
  have h: "splitIndexOf (replicate n (CHR ''a'')) = 400" for n
    using splitIndexOf_hard(1) [of "replicate n (CHR ''a'')"] nw_a
    by (simp add: MAX_LENGTH_def)
  have "splitChunks (replicate 1000 (CHR ''a'')) =
        replicate 400 (CHR ''a'') # splitChunks (replicate 600 (CHR ''a''))"
    by (subst splitChunks_long) (simp_all add: h MAX_LENGTH_def trimEnd_replicate trimStart_replicate nw_a)
  also have "splitChunks (replicate 600 (CHR ''a'')) =
        replicate 400 (CHR ''a'') # splitChunks (replicate 200 (CHR ''a''))"
    by (subst splitChunks_long) (simp_all add: h MAX_LENGTH_def trimEnd_replicate trimStart_replicate nw_a)
  also have "splitChunks (replicate 200 (CHR ''a'')) = [replicate 200 (CHR ''a'')]"
    by (subst splitChunks_short) (simp_all add: MAX_LENGTH_def)
  finally show ?thesis .
qed

lemma messagesOf_3:
  "messagesOf pre [c1, c2, c3] =
     [c1 @ '' ...'',
      (if pre \<noteq> [] then pre @ '' '' @ c2 else c2) @ '' ...'',
      (if pre \<noteq> [] then pre @ '' '' @ c3 else c3)]"
  by (simp add: messagesOf_def chunkMessage_def upt_rec numeral_3_eq_3)

lemma messagesOf_2:
  "messagesOf pre [c1, c2] = [c1 @ '' ...'', (if pre \<noteq> [] then pre @ '' '' @ c2 else c2)]"
  by (simp add: messagesOf_def chunkMessage_def upt_rec numeral_2_eq_2)

lemma chunks_410:
  "splitChunks (replicate 399 (CHR ''a'') @ '' '' @ replicate 10 (CHR ''b'')) =
     [replicate 399 (CHR ''a''), replicate 10 (CHR ''b'')]"
  and no_hardCut_410: "\<not> hardCut (replicate 399 (CHR ''a'') @ '' '' @ replicate 10 (CHR ''b''))"
proof -
  let ?s = "replicate 399 (CHR ''a'') @ CHR '' '' # replicate 10 (CHR ''b'')"
  have l: "lastIndexOf ?s (CHR '' '') MAX_LENGTH = int 399"
    using lastIndexOf_at [of "replicate 399 (CHR ''a'')" MAX_LENGTH "CHR '' ''" "replicate 10 (CHR ''b'')"]
    by (simp add: MAX_LENGTH_def)
  have nl: "CHR 0x0A \<notin> set ?s" by simp
  have k: "splitIndexOf ?s = 400" using splitIndexOf_space(1) [OF nl l] by simp
  show "\<not> hardCut (replicate 399 (CHR ''a'') @ '' '' @ replicate 10 (CHR ''b''))"
    using splitIndexOf_space(2) [OF nl l] by simp
  have "splitChunks ?s = replicate 399 (CHR ''a'') # splitChunks (replicate 10 (CHR ''b''))"
    by (subst splitChunks_long)
       (simp_all add: k MAX_LENGTH_def trimEnd_def trimStart_def dropWhile_replicate nw_a
          isWhiteSpace_def codeUnit_def)
  also have "splitChunks (replicate 10 (CHR ''b'')) = [replicate 10 (CHR ''b'')]"
    by (subst splitChunks_short) (simp_all add: MAX_LENGTH_def)
  finally show "splitChunks (replicate 399 (CHR ''a'') @ '' '' @ replicate 10 (CHR ''b'')) =
     [replicate 399 (CHR ''a''), replicate 10 (CHR ''b'')]" by simp
qed












lemma filter_trimEnd: "filter (\<lambda>x. \<not> isWhiteSpace x) (trimEnd s) = filter (\<lambda>x. \<not> isWhiteSpace x) s"
proof -
  have "filter (\<lambda>x. \<not> P x) (dropWhile P xs) = filter (\<lambda>x. \<not> P x) xs" for P and xs :: "'a list"
    by (induction xs) auto
  from this [of isWhiteSpace "rev s"] show ?thesis
    by (simp add: trimEnd_def rev_filter [symmetric] del: rev_filter)
qed

lemma filter_trimStart: "filter (\<lambda>x. \<not> isWhiteSpace x) (trimStart s) = filter (\<lambda>x. \<not> isWhiteSpace x) s"
  unfolding trimStart_def by (induction s) auto

lemma splitChunks_filter:
  "filter (\<lambda>x. \<not> isWhiteSpace x) (concat (splitChunks s)) = filter (\<lambda>x. \<not> isWhiteSpace x) s"
proof (induction s rule: splitChunks.induct)
  case (1 s)
  show ?case
  proof (cases "MAX_LENGTH < length s")
    case True
    let ?k = "splitIndexOf s"
    have "filter (\<lambda>x. \<not> isWhiteSpace x) (concat (splitChunks s)) =
          filter (\<lambda>x. \<not> isWhiteSpace x) (take ?k s) @ filter (\<lambda>x. \<not> isWhiteSpace x) (drop ?k s)"
      using 1 True by (subst splitChunks_long) (simp_all add: filter_trimEnd filter_trimStart)
    also have "\<dots> = filter (\<lambda>x. \<not> isWhiteSpace x) (take ?k s @ drop ?k s)"
      by (simp only: filter_append)
    finally show ?thesis by simp
  next
    case False
    then show ?thesis by (subst splitChunks.simps) simp
  qed
qed

lemma length_chunkMessage:
  "i < n \<Longrightarrow> length (chunkMessage pre n i ch) =
     length ch + (if 0 < i \<and> pre \<noteq> [] then length pre + 1 else 0) + (if Suc i < n then 4 else 0)"
  by (auto simp: chunkMessage_def Let_def)

lemma outgoing_split: "split opts \<Longrightarrow> outgoing opts text = messagesOf (splitPrefix opts) (textChunks text)"
  by (simp add: outgoing_def textChunks_def messagesOf_def chunkMessage_def)










lemma utf8Length_append [simp]: "utf8Length (xs @ ys) = utf8Length xs + utf8Length ys"
  by (simp add: utf8Length_def)








section \<open>The delivery pipeline: budget, order and the number of calls\<close>

text \<open>
  C1, as the code has it. With splitting on, on a connected client, every message that
  is passed to say, notice or action is one chunk of the text with its decoration: the
  split prefix and a space before every chunk but the first, the four characters of the
  continuation marker behind every chunk but the last. Every chunk, the hard cut
  included, has at most 400 characters (or 401 with a punctuation mark in the last
  place), so that a message has the length of its chunk plus that of its decoration.
  The chunks come in the order of the text: together they are a subsequence of the text
  that holds all its characters but white space.
\<close>

theorem delivery_budget_and_order:
  assumes "connected c" and "client c = Some calls" and "split opts"
  shows "sendMessageIrc c tgt text opts =
           Inr (c\<lparr>client := Some (calls @ map (kindOf opts tgt)
                                      (messagesOf (splitPrefix opts) (textChunks text)))\<rparr>) \<and>
         list_all chunkWithinBudget (textChunks text) \<and>
         subseq (concat (textChunks text)) text \<and>
         filter (\<lambda>x. \<not> isWhiteSpace x) (concat (textChunks text)) = filter (\<lambda>x. \<not> isWhiteSpace x) text \<and>
         (\<forall>i < length (textChunks text).
            length (messagesOf (splitPrefix opts) (textChunks text) ! i) =
              length (textChunks text ! i) +
              (if 0 < i \<and> splitPrefix opts \<noteq> [] then length (splitPrefix opts) + 1 else 0) +
              (if Suc i < length (textChunks text) then 4 else 0))"
proof (intro conjI)
  show "sendMessageIrc c tgt text opts =
           Inr (c\<lparr>client := Some (calls @ map (kindOf opts tgt)
                                      (messagesOf (splitPrefix opts) (textChunks text)))\<rparr>)"
    using sendMessageIrc_ok [OF assms(1,2)] outgoing_split [OF assms(3)] by simp
  show "list_all chunkWithinBudget (textChunks text)"
    by (simp add: textChunks_def splitChunks_budget chunkWithinBudget_def)
  show "subseq (concat (textChunks text)) text"
    by (simp add: textChunks_def splitChunks_subseq)
  show "filter (\<lambda>x. \<not> isWhiteSpace x) (concat (textChunks text)) = filter (\<lambda>x. \<not> isWhiteSpace x) text"
    by (simp add: textChunks_def splitChunks_filter)
  show "\<forall>i < length (textChunks text).
            length (messagesOf (splitPrefix opts) (textChunks text) ! i) =
              length (textChunks text ! i) +
              (if 0 < i \<and> splitPrefix opts \<noteq> [] then length (splitPrefix opts) + 1 else 0) +
              (if Suc i < length (textChunks text) then 4 else 0)"
    by (simp add: messagesOf_def length_chunkMessage)
qed

theorem delivery_budget_and_order_witness:
  "connected liveClient \<and> client liveClient = Some [Connect] \<and> split plainOptions \<and>
   sendMessageIrc liveClient ''#chan'' (replicate 1000 (CHR ''a'')) plainOptions =
     Inr (liveClient\<lparr>client :=
            Some [Connect,
                  Say ''#chan'' (replicate 400 (CHR ''a'') @ '' ...''),
                  Say ''#chan'' (replicate 400 (CHR ''a'') @ '' ...''),
                  Say ''#chan'' (replicate 200 (CHR ''a''))]\<rparr>) \<and>
   list_all chunkWithinBudget
     [replicate 400 (CHR ''a''), replicate 400 (CHR ''a''), replicate 200 (CHR ''a'')]"
  using delivery_budget_and_order
          [of liveClient "[Connect]" plainOptions "''#chan''" "replicate 1000 (CHR ''a'')"]
  by (simp add: liveClient_def plainOptions_def textChunks_def chunks_1000 messagesOf_3
      kindOf_def MAX_LENGTH_def)

text \<open>
  The claim as written fails at 399 letters, a space and 10 letters: the only cut is at
  the space, not the hard cut, and the first message has 403 characters.
\<close>

theorem delivery_budget_and_order_counterexample:
  "\<not> hardCut (replicate 399 (CHR ''a'') @ '' '' @ replicate 10 (CHR ''b'')) \<and>
   sendMessageIrc liveClient ''#chan''
       (replicate 399 (CHR ''a'') @ '' '' @ replicate 10 (CHR ''b'')) plainOptions =
     Inr (liveClient\<lparr>client :=
            Some [Connect,
                  Say ''#chan'' (replicate 399 (CHR ''a'') @ '' ...''),
                  Say ''#chan'' (replicate 10 (CHR ''b''))]\<rparr>) \<and>
   length (replicate 399 (CHR ''a'') @ '' ...'') = 403"
  using sendMessageIrc_ok [of liveClient "[Connect]" "''#chan''"
          "replicate 399 (CHR ''a'') @ '' '' @ replicate 10 (CHR ''b'')" plainOptions]
    chunks_410 no_hardCut_410
  by (simp add: liveClient_def plainOptions_def outgoing_def messagesOf_2 kindOf_def
      MAX_LENGTH_def)




text \<open>
  C9. On a wrapper that is neither connected nor registered, \<^verbatim>\<open>connect\<close>
  succeeds and leaves it connected and not registered: the flag is set by the handler
  of the registered event alone. The send path asks for nothing but the connected flag,
  so that a send in this state goes through: its messages reach the library client
  right behind the connect call.
\<close>

theorem send_before_registration:
  assumes "\<not> connected c" and "\<not> registered c"
  shows "\<exists>c'. connect True c = Inr c' \<and> isConnected c' \<and> \<not> isRegistered c' \<and>
           isRegistered (onRegisteredEvent c') \<and>
           sendMessageIrc c' tgt text opts =
             Inr (c'\<lparr>client := Some (Connect # map (kindOf opts tgt) (outgoing opts text))\<rparr>)"
proof -
  let ?c' = "c\<lparr>client := Some [Connect], connected := True\<rparr>"
  have "connect True c = Inr ?c'" using assms by (simp add: connect_def)
  moreover have "sendMessageIrc ?c' tgt text opts =
     Inr (?c'\<lparr>client := Some ([Connect] @ map (kindOf opts tgt) (outgoing opts text))\<rparr>)"
    by (rule sendMessageIrc_ok) simp_all
  ultimately show ?thesis using assms
    by (simp add: isConnected_def isRegistered_def onRegisteredEvent_def)
qed

theorem send_before_registration_witness:
  "\<not> connected createIrcClient \<and> \<not> registered createIrcClient \<and>
   (\<exists>c'. connect True createIrcClient = Inr c' \<and> isConnected c' \<and> \<not> isRegistered c' \<and>
      isRegistered (onRegisteredEvent c') \<and>
      sendMessageIrc c' ''#chan'' ''hello'' plainOptions =
        Inr (c'\<lparr>client := Some [Connect, Say ''#chan'' ''hello'']\<rparr>))"
  using send_before_registration [of createIrcClient "''#chan''" "''hello''" plainOptions]
  by (simp add: createIrcClient_def outgoing_def kindOf_def plainOptions_def MAX_LENGTH_def)

section \<open>Resolving an account\<close>

lemma resolveIn_configured: "resolveIn ircCfg dflt a \<noteq> Inl NotConfigured"
  by (auto simp: resolveIn_def split: option.splits)

text \<open>
  The resolver of the send wrapper does what the specification says: it reports a
  missing configuration when there is neither a server nor a map of accounts, returns the
  entry of a known account that has a server, and names the id and the keys of the map
  when the id is unknown, unless the id is the name of a property that the map inherits:
  then it finds that property and reports a missing server block.
\<close>

lemma resolver_not_configured:
  "resolveIrcAccountResolver norm dflt cfg a = Inl NotConfigured \<longleftrightarrow>
     (case cfg of None \<Rightarrow> True | Some ircCfg \<Rightarrow> server ircCfg = None \<and> accounts ircCfg = None)"
  using resolveIn_configured
  by (auto simp: resolveIrcAccountResolver_def split: option.splits)

lemma resolver_finds_entry:
  assumes "accounts ircCfg = Some accs" and "a \<noteq> []"
    and "map_of accs (normalized norm a) = Some entry" and "server entry \<noteq> None"
  shows "resolveIrcAccountResolver norm dflt (Some ircCfg) (Some a) =
         Inr \<lparr>resolvedId = normalized norm a, config = entry, serverConfig = server entry\<rparr>"
  using assms by (simp add: resolveIrcAccountResolver_def resolveIn_def givenId_def)

lemma resolver_unknown_id:
  assumes "accounts ircCfg = Some accs" and "a \<noteq> []" and "map_of accs (normalized norm a) = None"
    and "normalized norm a \<notin> set objectPrototypeKeys"
  shows "resolveIrcAccountResolver norm dflt (Some ircCfg) (Some a) =
         Inl (AccountNotFound (normalized norm a) (map fst accs))"
  using assms by (simp add: resolveIrcAccountResolver_def resolveIn_def givenId_def)

lemma resolver_inherited_key:
  assumes "accounts ircCfg = Some accs" and "map_of accs ''constructor'' = None"
  shows "resolveIrcAccountResolver (\<lambda>a. None) dflt (Some ircCfg) (Some ''constructor'') =
         Inl (AccountMissingServer ''constructor'')"
  using assms
  by (simp add: resolveIrcAccountResolver_def resolveIn_def givenId_def normalized_def
      objectPrototypeKeys_def)

lemma resolver_accounts_only:
  "resolveIrcAccountResolver (\<lambda>a. None) ''default'' (Some accountsOnly) (Some ''work'') =
     Inr \<lparr>resolvedId = ''work'', config = workAccount, serverConfig = Some workServer\<rparr>"
  by (simp add: resolveIrcAccountResolver_def resolveIn_def givenId_def normalized_def
      accountsOnly_def workAccount_def)

text \<open>
  C3 at the failing input. The configuration holds the account "work" with a server
  block in its map of accounts and no server block at the top level. The
  \<^verbatim>\<open>resolveIrcAccount\<close> of \<^verbatim>\<open>accounts.ts\<close> tests the top-level server before it
  looks at the map and reports that IRC is not configured, whatever the id; the claim,
  and the resolver of the send wrapper on the same input, give the entry.
\<close>

theorem resolveIrcAccount_accounts_only:
  "resolveIrcAccount norm dflt (Some accountsOnly) (Some ''work'') = Inl NotConfigured"
  by (simp add: resolveIrcAccount_def accountsOnly_def)

theorem resolveIrcAccount_accounts_only_witness:
  "resolveIrcAccount (\<lambda>a. None) ''default'' (Some accountsOnly) (Some ''work'') = Inl NotConfigured \<and>
   map_of [(''work'', workAccount)] ''work'' = Some workAccount \<and> server workAccount \<noteq> None"
  using resolveIrcAccount_accounts_only [of "\<lambda>a. None" "''default''"]
  by (simp add: workAccount_def)

section \<open>The monitor after stop\<close>

lemma disconnect_twice: "disconnect r2 (disconnect r1 c) = disconnect r1 c"
  by (auto simp: disconnect_def split: option.splits)

lemma stop_twice: "stop (stop m) = stop m"
  by (simp add: stop_def disconnect_twice)

lemma stopped_stop: "stopped (stop m)"
  by (simp add: stop_def)

lemma onMessage_stopped: "stopped m \<Longrightarrow> onMessage n tgt message m = m"
  by (simp add: onMessage_def)

lemma onNotice_stopped: "stopped m \<Longrightarrow> onNotice n message m = m"
  by (simp add: onNotice_def)

lemma onClose_stopped:
  "stopped m \<Longrightarrow>
   onClose m = (if ''close'' \<in> set (internalHandlers m)
                then m\<lparr>forwarded := forwarded m @ [EvClose]\<rparr> else m)"
  by (simp add: onClose_def forward_def)

text \<open>What the handlers do behind \<^verbatim>\<open>stop\<close>, were they attached.\<close>

lemma handlers_after_stop:
  "stop (stop m) = stop m \<and>
   dispatch (EvMessage n tgt message) (stop m) = Inr (stop m) \<and>
   dispatch (EvNotice n message) (stop m) = Inr (stop m) \<and>
   dispatch EvClose (stop m) =
     Inr (if ''close'' \<in> set (internalHandlers m)
          then (stop m)\<lparr>forwarded := forwarded m @ [EvClose]\<rparr> else stop m)"
  using onClose_stopped [OF stopped_stop, of m]
  by (simp add: stop_twice dispatch_def onMessage_stopped onNotice_stopped stopped_stop)
     (simp add: stop_def)

text \<open>
  The error handler and the registered handler do not look at the flag: behind
  \<^verbatim>\<open>stop\<close> an error is logged and passed on, and a registered event is logged,
  joins the channels on the connection that was quit and is passed on.
\<close>

lemma error_after_stop:
  "dispatch (EvError ''reset'') (stop runningMonitor) =
     Inr ((stop runningMonitor)\<lparr>logged := [LogError ''reset''], forwarded := [EvError ''reset'']\<rparr>)"
  by (simp add: dispatch_def onError_def forward_def runningMonitor_def stop_def)

lemma registered_after_stop:
  "dispatch EvRegistered (stop runningMonitor) =
     Inr ((stop runningMonitor)
           \<lparr>wrapper := (wrapper (stop runningMonitor))
                         \<lparr>client := Some [Connect, Quit ''Monitoring stopped'', Join ''#general'']\<rparr>,
            logged := [LogConnected ''irc.libera.chat'' 6697 ''claw''],
            forwarded := [EvRegistered]\<rparr>)"
  by (simp add: dispatch_def onRegistered_def forward_def runningMonitor_def stop_def
      disconnect_def liveClient_def serverOf_def workResolved_def workServer_def workAccount_def
      autoJoinChannels_def startsWith_def join_def call_def Let_def)

text \<open>
  As the sources stand the monitor never gets as far as its handle: the wrapper that
  \<^verbatim>\<open>createIrcClient\<close> returns holds no library client yet, and attaching the first
  handler raises.
\<close>

lemma monitorIrcProvider_fails: "monitorIrcProvider norm dflt cfg a \<noteq> Inr m"
  by (simp add: monitorIrcProvider_def createIrcClient_def split: sum.splits)

text \<open>
  C8 at the failing input, and at every other. With a server block at the top level the
  account resolves, and \<^verbatim>\<open>monitorIrcProvider\<close> then attaches its first handler to
  the \<^verbatim>\<open>client\<close> property of the fresh wrapper, which is null until
  \<^verbatim>\<open>connect\<close>: it raises a type error. Whatever the configuration and the account
  id, no handle is returned: there is no \<^verbatim>\<open>stop\<close> to call, no flag is ever set and
  no handler is attached that could consult it.
\<close>

theorem monitorIrcProvider_no_handle:
  "monitorIrcProvider norm dflt (Some topLevelOnly) None = Inl NullClient \<and>
   (\<forall>m. monitorIrcProvider norm dflt cfg inputAccountId \<noteq> Inr m)"
  by (simp add: monitorIrcProvider_fails)
     (simp add: monitorIrcProvider_def resolveIrcAccount_def givenId_def
        resolveDefaultIrcAccountId_def listIrcAccountIds_def resolveIn_def topLevelOnly_def
        createIrcClient_def)

theorem monitorIrcProvider_no_handle_witness:
  "monitorIrcProvider (\<lambda>a. None) ''default'' (Some topLevelOnly) None = Inl NullClient \<and>
   monitorIrcProvider (\<lambda>a. None) ''default'' (Some accountsOnly) (Some ''work'') \<noteq>
     Inr runningMonitor"
  using monitorIrcProvider_no_handle
          [of "\<lambda>a. None" "''default''" "Some accountsOnly" "Some ''work''"]
  by simp

section \<open>The probe: what a run returns\<close>

text \<open>
  C7 at the failing input, and at every other: whatever the server, the time limit and
  the event that would decide the race, \<^verbatim>\<open>probeIrc\<close> returns a failure whose error
  is the type error of attaching a listener to the null client of the fresh wrapper.
  The error does not mention the time limit, no connection is opened, and
  \<^verbatim>\<open>cleanup\<close> runs not once but never.
\<close>

theorem probeIrc_run:
  "probeIrc sc timeoutMs ev =
     \<lparr>result = \<lparr>ok = False, probeConnected = None, error = Some NullClientOn,
                 probeHost = host sc,
                 probePort = (case port sc of None \<Rightarrow> 6697 | Some p \<Rightarrow> p),
                 probeNick = nick sc\<rparr>,
      probeClient = createIrcClient, cleanups = 0, listening = False\<rparr>"
  by (simp add: probeIrc_def probeOn_def createIrcClient_def)

theorem probeIrc_run_witness:
  "cleanups (probeIrc workServer 50 TimerFired) = 0 \<and>
   error (result (probeIrc workServer 50 TimerFired)) = Some NullClientOn \<and>
   \<not> ok (result (probeIrc workServer 50 TimerFired))"
  using probeIrc_run [of workServer 50 TimerFired] by simp

text \<open>
  On a wrapper that already holds a library client the listeners can be attached. Then
  every event of that client ends in one \<^verbatim>\<open>cleanup\<close>, and the timer in none: the
  listeners stay, and the wrapper stays connected.
\<close>

lemma probeOn_event:
  assumes "client w = Some calls" and "\<not> connected w" and "ev \<noteq> TimerFired"
  shows "cleanups (probeOn w sc timeoutMs ev) = 1 \<and> \<not> listening (probeOn w sc timeoutMs ev)"
  using assms by (cases ev) (simp_all add: probeOn_def connect_def cleanup_def Let_def)

lemma probeOn_timer:
  assumes "client w = Some calls" and "\<not> connected w"
  shows "cleanups (probeOn w sc timeoutMs TimerFired) = 0 \<and>
         listening (probeOn w sc timeoutMs TimerFired) \<and>
         connected (probeClient (probeOn w sc timeoutMs TimerFired)) \<and>
         result (probeOn w sc timeoutMs TimerFired) =
           \<lparr>ok = False, probeConnected = None, error = Some (TimeoutAfter timeoutMs),
            probeHost = host sc,
            probePort = (case port sc of None \<Rightarrow> 6697 | Some p \<Rightarrow> p),
            probeNick = nick sc\<rparr>"
  using assms by (simp add: probeOn_def connect_def Let_def)

end
